theory Spec2Isabelle
  imports Main
begin

section \<open>Resource deletion-lifecycle guard\<close>

text \<open>
  The guard in \<^verbatim>\<open>internal/controller/helpers.go\<close> reads two fields of a Kubernetes
  object: the deletion timestamp (a pointer to a \<^verbatim>\<open>metav1.Time\<close>, possibly nil) and the
  list of finalizers. An instant is kept as the pair the Go runtime compares in
  \<^verbatim>\<open>time.Time.IsZero\<close>: seconds and nanoseconds since the zero instant.
\<close>

datatype Time = Time (sec: int) (nsec: int)

record ObjectMeta =
  DeletionTimestamp :: "Time option"
  Finalizers :: "string list"

definition GetDeletionTimestamp :: "ObjectMeta \<Rightarrow> Time option" where
  "GetDeletionTimestamp o' = DeletionTimestamp o'"

definition GetFinalizers :: "ObjectMeta \<Rightarrow> string list" where
  "GetFinalizers o' = Finalizers o'"

text \<open>
  \<^verbatim>\<open>func (t *Time) IsZero() bool\<close> belongs to the apimachinery library, outside the
  repository; by its documentation a nil pointer is zero, otherwise the wrapped instant
  decides.
\<close>

definition IsZero :: "Time option \<Rightarrow> bool" where
  "IsZero t = (case t of None \<Rightarrow> True | Some x \<Rightarrow> sec x = 0 \<and> nsec x = 0)"

text \<open>
  \<^verbatim>\<open>controllerutil.ContainsFinalizer\<close> belongs to controller-runtime, outside the
  repository: a loop over the finalizers that returns at the first equal entry.
\<close>

fun contains_loop :: "string list \<Rightarrow> string \<Rightarrow> bool" where
  "contains_loop [] finalizer = False"
| "contains_loop (e # f) finalizer = (if e = finalizer then True else contains_loop f finalizer)"

definition ContainsFinalizer :: "ObjectMeta \<Rightarrow> string \<Rightarrow> bool" where
  "ContainsFinalizer o' finalizer = contains_loop (GetFinalizers o') finalizer"

definition needToAddFinalizer :: "ObjectMeta \<Rightarrow> string \<Rightarrow> bool" where
  "needToAddFinalizer o' finalizer =
     (IsZero (GetDeletionTimestamp o') \<and> \<not> ContainsFinalizer o' finalizer)"

definition isDeletionCandidate :: "ObjectMeta \<Rightarrow> string \<Rightarrow> bool" where
  "isDeletionCandidate o' finalizer =
     (\<not> IsZero (GetDeletionTimestamp o') \<and> ContainsFinalizer o' finalizer)"

text \<open>
  The two readings the guard's callers use: the deletion marker is present when the object
  carries a deletion timestamp that is not the zero instant, and a token is held when it
  occurs among the finalizers.
\<close>

definition marker_present :: "ObjectMeta \<Rightarrow> bool" where
  "marker_present o' = (case DeletionTimestamp o' of None \<Rightarrow> False | Some x \<Rightarrow> x \<noteq> Time 0 0)"

definition token_present :: "ObjectMeta \<Rightarrow> string \<Rightarrow> bool" where
  "token_present o' finalizer = (finalizer \<in> set (Finalizers o'))"

section \<open>Version classification and encoding\<close>

subsection \<open>Go integers\<close>

text \<open>
  The encoded version is a Go \<^verbatim>\<open>int\<close>, 64 bits wide on the platforms the operator is built
  for. Values are kept as mathematical integers in the range of \<^verbatim>\<open>int64\<close>; every arithmetic
  operation of the source wraps around in two's complement, which is written out here.
\<close>

definition MaxInt64 :: int where
  "MaxInt64 = 9223372036854775807"

definition MinInt64 :: int where
  "MinInt64 = - 9223372036854775808"

definition wrap64 :: "int \<Rightarrow> int" where
  "wrap64 x = (x + 9223372036854775808) mod 18446744073709551616 - 9223372036854775808"

definition go_add :: "int \<Rightarrow> int \<Rightarrow> int" where
  "go_add a b = wrap64 (a + b)"

definition go_mul :: "int \<Rightarrow> int \<Rightarrow> int" where
  "go_mul a b = wrap64 (a * b)"

definition legacyVersionThreshold :: int where
  "legacyVersionThreshold = 2024091"

definition semanticVersionBase :: int where
  "semanticVersionBase = 300000000"

subsection \<open>Decimal conversion\<close>

definition is_digit :: "char \<Rightarrow> bool" where
  "is_digit c = (c \<in> set ''0123456789'')"

definition digit_value :: "char \<Rightarrow> int" where
  "digit_value c = of_char c - 48"

text \<open>The conversion loop of the standard library: \<^verbatim>\<open>n = n*10 + int(ch - '0')\<close>.\<close>

fun decimal_loop :: "int \<Rightarrow> string \<Rightarrow> int" where
  "decimal_loop n [] = n"
| "decimal_loop n (ch # s) = decimal_loop (n * 10 + digit_value ch) s"

definition decimal :: "string \<Rightarrow> int" where
  "decimal s = decimal_loop 0 s"

datatype strconv_error = ErrSyntax | ErrRange

datatype NumError = NumError (Func: string) (Num: string) (Err: strconv_error)

text \<open>
  \<^verbatim>\<open>strconv.Atoi\<close> of the Go standard library: an optional sign, then one or more ASCII
  digits; a syntax error for anything else, a range error when the value does not fit an
  \<^verbatim>\<open>int\<close>. The classifier only passes it non-empty digit strings.
\<close>

definition Atoi :: "string \<Rightarrow> NumError + int" where
  "Atoi s =
     (let neg = (s \<noteq> [] \<and> hd s = CHR ''-'');
          ds = (if s \<noteq> [] \<and> (hd s = CHR ''-'' \<or> hd s = CHR ''+'') then tl s else s)
      in if ds = [] \<or> \<not> list_all is_digit ds then Inl (NumError ''Atoi'' s ErrSyntax)
         else if neg then
           (if - decimal ds < MinInt64 then Inl (NumError ''Atoi'' s ErrRange)
            else Inr (- decimal ds))
         else
           (if MaxInt64 < decimal ds then Inl (NumError ''Atoi'' s ErrRange)
            else Inr (decimal ds)))"

subsection \<open>The two patterns\<close>

text \<open>
  \<^verbatim>\<open>FindStringSubmatch\<close> of the Go standard library returns nil (the empty list) when the
  pattern does not match, and otherwise the matched text followed by one entry per capture
  group. Both patterns are anchored at both ends, so the matched text is the whole text.
  Texts are byte strings.

  Legacy pattern \<^verbatim>\<open>^v([0-9]{6})-([0-9]{1})$\<close>: the text has exactly nine bytes.
\<close>

definition legacyRegexp_FindStringSubmatch :: "string \<Rightarrow> string list" where
  "legacyRegexp_FindStringSubmatch version =
     (if length version = 9 \<and> hd version = CHR ''v''
         \<and> list_all is_digit (take 6 (drop 1 version))
         \<and> version ! 7 = CHR ''-''
         \<and> is_digit (version ! 8)
      then [version, take 6 (drop 1 version), drop 8 version]
      else [])"

text \<open>
  Semantic pattern \<^verbatim>\<open>^([0-9]+)\.([0-9]+)\.([0-9]+)(?:[-+].*)?$\<close>. Each digit group is
  followed by a byte that is not a digit (or by the end of the text), so the greedy groups
  are the longest digit runs. The dot of \<^verbatim>\<open>.*\<close> matches every byte except the newline.
\<close>

definition suffix_ok :: "string \<Rightarrow> bool" where
  "suffix_ok t =
     (t = [] \<or> ((hd t = CHR ''-'' \<or> hd t = CHR ''+'') \<and> list_all (\<lambda>c. c \<noteq> CHR 0x0A) (tl t)))"

definition semanticRegexp_FindStringSubmatch :: "string \<Rightarrow> string list" where
  "semanticRegexp_FindStringSubmatch version =
     (let g1 = takeWhile is_digit version; r1 = dropWhile is_digit version in
      if g1 = [] \<or> r1 = [] \<or> hd r1 \<noteq> CHR ''.'' then []
      else
        let g2 = takeWhile is_digit (tl r1); r2 = dropWhile is_digit (tl r1) in
        if g2 = [] \<or> r2 = [] \<or> hd r2 \<noteq> CHR ''.'' then []
        else
          let g3 = takeWhile is_digit (tl r2); r3 = dropWhile is_digit (tl r2) in
          if g3 = [] \<or> \<not> suffix_ok r3 then []
          else [version, g1, g2, g3])"

subsection \<open>The classifier\<close>

text \<open>
  Each \<^verbatim>\<open>fmt.Errorf\<close> of the classifier is one constructor, holding the arguments that are
  formatted into the message: the version string first.
\<close>

datatype error =
    Errorf_legacy string NumError
  | Errorf_major string NumError
  | Errorf_minor string NumError
  | Errorf_patch string NumError
  | Errorf_malformed string

fun error_version :: "error \<Rightarrow> string" where
  "error_version (Errorf_legacy version err) = version"
| "error_version (Errorf_major version err) = version"
| "error_version (Errorf_minor version err) = version"
| "error_version (Errorf_patch version err) = version"
| "error_version (Errorf_malformed version) = version"

definition encode_semantic :: "int \<Rightarrow> int \<Rightarrow> int \<Rightarrow> int" where
  "encode_semantic major minor patch =
     go_add (go_add (go_add semanticVersionBase (go_mul major 1000000)) (go_mul minor 1000)) patch"

definition parseTFEVersionDetailed :: "string \<Rightarrow> int \<times> bool \<times> error option" where
  "parseTFEVersionDetailed version =
     (let matches = legacyRegexp_FindStringSubmatch version in
      if length matches = 3 then
        (case Atoi (matches ! 1 @ matches ! 2) of
           Inl err \<Rightarrow> (0, False, Some (Errorf_legacy version err))
         | Inr versionNum \<Rightarrow> (versionNum, False, None))
      else
        let matches = semanticRegexp_FindStringSubmatch version in
        if 4 \<le> length matches then
          (case Atoi (matches ! 1) of
             Inl err \<Rightarrow> (0, False, Some (Errorf_major version err))
           | Inr major \<Rightarrow>
          (case Atoi (matches ! 2) of
             Inl err \<Rightarrow> (0, False, Some (Errorf_minor version err))
           | Inr minor \<Rightarrow>
          (case Atoi (matches ! 3) of
             Inl err \<Rightarrow> (0, False, Some (Errorf_patch version err))
           | Inr patch \<Rightarrow> (encode_semantic major minor patch, True, None))))
        else (0, False, Some (Errorf_malformed version)))"

definition parseTFEVersion :: "string \<Rightarrow> int \<times> error option" where
  "parseTFEVersion version =
     (case parseTFEVersionDetailed version of (versionNum, _, err) \<Rightarrow> (versionNum, err))"

text \<open>
  The selection rule of the test table "Algorithm selection logic":
  \<^verbatim>\<open>usesNewAlgorithm := isSemantic || versionNum >= 2024091\<close>.
\<close>

definition usesNewAlgorithm :: "int \<Rightarrow> bool \<Rightarrow> bool" where
  "usesNewAlgorithm versionNum isSemantic = (isSemantic \<or> 2024091 \<le> versionNum)"

subsection \<open>What the patterns mean\<close>

text \<open>
  The fragment of the pattern syntax that the classifier uses, with the set of texts each
  pattern matches. Both patterns are anchored by \<^verbatim>\<open>^\<close> and \<^verbatim>\<open>$\<close> and carry no flag, so
  a match is a match of the whole text. A capture group matches what its body matches, and
  is not kept in the syntax.
\<close>

datatype regexp =
    RLit char
  | RClass string
  | RAny
  | RCat regexp regexp
  | ROpt regexp
  | RStar regexp
  | RPlus regexp
  | RRep nat regexp

definition conc :: "string set \<Rightarrow> string set \<Rightarrow> string set" where
  "conc A B = {u @ w | u w. u \<in> A \<and> w \<in> B}"

fun pow :: "nat \<Rightarrow> string set \<Rightarrow> string set" where
  "pow 0 A = {[]}"
| "pow (Suc n) A = conc A (pow n A)"

inductive_set star :: "string set \<Rightarrow> string set" for A :: "string set" where
  star_empty: "[] \<in> star A"
| star_step: "u \<in> A \<Longrightarrow> w \<in> star A \<Longrightarrow> u @ w \<in> star A"

fun lang :: "regexp \<Rightarrow> string set" where
  "lang (RLit c) = {[c]}"
| "lang (RClass cs) = {[c] | c. c \<in> set cs}"
| "lang RAny = {[c] | c. c \<noteq> CHR 0x0A}"
| "lang (RCat r s) = conc (lang r) (lang s)"
| "lang (ROpt r) = insert [] (lang r)"
| "lang (RStar r) = star (lang r)"
| "lang (RPlus r) = conc (lang r) (star (lang r))"
| "lang (RRep n r) = pow n (lang r)"

text \<open>\<^verbatim>\<open>^v([0-9]{6})-([0-9]{1})$\<close>\<close>

definition legacyRegexp :: regexp where
  "legacyRegexp =
     RCat (RLit CHR ''v'') (RCat (RRep 6 (RClass ''0123456789''))
       (RCat (RLit CHR ''-'') (RRep 1 (RClass ''0123456789''))))"

text \<open>\<^verbatim>\<open>^([0-9]+)\.([0-9]+)\.([0-9]+)(?:[-+].*)?$\<close>\<close>

definition semanticRegexp :: regexp where
  "semanticRegexp =
     RCat (RPlus (RClass ''0123456789'')) (RCat (RLit CHR ''.'')
       (RCat (RPlus (RClass ''0123456789'')) (RCat (RLit CHR ''.'')
         (RCat (RPlus (RClass ''0123456789''))
           (ROpt (RCat (RClass ''-+'') (RStar RAny)))))))"

subsection \<open>The grammars, stated on the text\<close>

text \<open>
  What the two patterns describe, written as decompositions of the text: a legacy version
  is \<^verbatim>\<open>v\<close>, six digits, \<^verbatim>\<open>-\<close> and one digit; a semantic version is three non-empty
  digit groups separated by dots, then nothing or a tail that starts with \<^verbatim>\<open>-\<close> or
  \<^verbatim>\<open>+\<close> and holds no newline.
\<close>

definition legacy_form :: "string \<Rightarrow> string \<Rightarrow> string \<Rightarrow> bool" where
  "legacy_form version ym bn =
     (version = CHR ''v'' # ym @ CHR ''-'' # bn
      \<and> length ym = 6 \<and> list_all is_digit ym
      \<and> length bn = 1 \<and> list_all is_digit bn)"

definition semantic_form :: "string \<Rightarrow> string \<Rightarrow> string \<Rightarrow> string \<Rightarrow> string \<Rightarrow> bool" where
  "semantic_form version a b c t =
     (version = a @ CHR ''.'' # b @ CHR ''.'' # c @ t
      \<and> a \<noteq> [] \<and> list_all is_digit a
      \<and> b \<noteq> [] \<and> list_all is_digit b
      \<and> c \<noteq> [] \<and> list_all is_digit c
      \<and> suffix_ok t)"

text \<open>The exact value of the semantic encoding, on mathematical integers.\<close>

definition semantic_sum :: "string \<Rightarrow> string \<Rightarrow> string \<Rightarrow> int" where
  "semantic_sum a b c = 300000000 + decimal a * 1000000 + decimal b * 1000 + decimal c"

text \<open>
  The legacy grammar as the interface description words it: the revision block is one or
  more digits.
\<close>

definition legacy_form_spec :: "string \<Rightarrow> string \<Rightarrow> string \<Rightarrow> bool" where
  "legacy_form_spec version ym bn =
     (version = CHR ''v'' # ym @ CHR ''-'' # bn
      \<and> length ym = 6 \<and> list_all is_digit ym
      \<and> bn \<noteq> [] \<and> list_all is_digit bn)"

definition legacy_grammar :: "string \<Rightarrow> bool" where
  "legacy_grammar version = (\<exists>ym bn. legacy_form version ym bn)"

definition semantic_grammar :: "string \<Rightarrow> bool" where
  "semantic_grammar version = (\<exists>a b c t. semantic_form version a b c t)"

text \<open>A numeric field of a matching text that \<^verbatim>\<open>strconv.Atoi\<close> refuses.\<close>

definition numeric_field_fails :: "string \<Rightarrow> bool" where
  "numeric_field_fails version =
     ((\<exists>ym bn. legacy_form version ym bn \<and> isl (Atoi (ym @ bn)))
      \<or> (\<exists>a b c t. semantic_form version a b c t
            \<and> (isl (Atoi a) \<or> isl (Atoi b) \<or> isl (Atoi c))))"

text \<open>
  The semantic grammar as the interface description words it: after the three digit
  groups, nothing, or \<^verbatim>\<open>-\<close> or \<^verbatim>\<open>+\<close> and an unrestricted tail. With the legacy grammar
  of \<open>legacy_form_spec\<close>, these are the grammars of the description, wider than the two
  patterns of the classifier.
\<close>

definition semantic_form_spec :: "string \<Rightarrow> string \<Rightarrow> string \<Rightarrow> string \<Rightarrow> string \<Rightarrow> bool" where
  "semantic_form_spec version a b c t =
     (version = a @ CHR ''.'' # b @ CHR ''.'' # c @ t
      \<and> a \<noteq> [] \<and> list_all is_digit a
      \<and> b \<noteq> [] \<and> list_all is_digit b
      \<and> c \<noteq> [] \<and> list_all is_digit c
      \<and> (t = [] \<or> hd t = CHR ''-'' \<or> hd t = CHR ''+''))"

definition legacy_grammar_spec :: "string \<Rightarrow> bool" where
  "legacy_grammar_spec version = (\<exists>ym bn. legacy_form_spec version ym bn)"

definition semantic_grammar_spec :: "string \<Rightarrow> bool" where
  "semantic_grammar_spec version = (\<exists>a b c t. semantic_form_spec version a b c t)"

definition numeric_field_fails_spec :: "string \<Rightarrow> bool" where
  "numeric_field_fails_spec version =
     ((\<exists>ym bn. legacy_form_spec version ym bn \<and> isl (Atoi (ym @ bn)))
      \<or> (\<exists>a b c t. semantic_form_spec version a b c t
            \<and> (isl (Atoi a) \<or> isl (Atoi b) \<or> isl (Atoi c))))"

text \<open>Lexicographic order on (major, minor, patch).\<close>

definition version_before :: "int \<times> int \<times> int \<Rightarrow> int \<times> int \<times> int \<Rightarrow> bool" where
  "version_before x y =
     (case x of (major1, minor1, patch1) \<Rightarrow>
      case y of (major2, minor2, patch2) \<Rightarrow>
        major1 < major2
        \<or> (major1 = major2 \<and> (minor1 < minor2 \<or> (minor1 = minor2 \<and> patch1 < patch2))))"

text \<open>
  The classifier with the two attempts swapped: the semantic pattern is tried first, the
  legacy pattern second. Only the order differs from \<open>parseTFEVersionDetailed\<close>.
\<close>

definition parseTFEVersionDetailed_semantic_first :: "string \<Rightarrow> int \<times> bool \<times> error option" where
  "parseTFEVersionDetailed_semantic_first version =
     (let matches = semanticRegexp_FindStringSubmatch version in
      if 4 \<le> length matches then
        (case Atoi (matches ! 1) of
           Inl err \<Rightarrow> (0, False, Some (Errorf_major version err))
         | Inr major \<Rightarrow>
        (case Atoi (matches ! 2) of
           Inl err \<Rightarrow> (0, False, Some (Errorf_minor version err))
         | Inr minor \<Rightarrow>
        (case Atoi (matches ! 3) of
           Inl err \<Rightarrow> (0, False, Some (Errorf_patch version err))
         | Inr patch \<Rightarrow> (encode_semantic major minor patch, True, None))))
      else
        let matches = legacyRegexp_FindStringSubmatch version in
        if length matches = 3 then
          (case Atoi (matches ! 1 @ matches ! 2) of
             Inl err \<Rightarrow> (0, False, Some (Errorf_legacy version err))
           | Inr versionNum \<Rightarrow> (versionNum, False, None))
        else (0, False, Some (Errorf_malformed version)))"

subsection \<open>The stricter revision of the classifier\<close>

text \<open>
  The repository holds a second revision of \<^verbatim>\<open>parseTFEVersionDetailed\<close>, whose doc comment
  reads "Legacy date-based: vYYYYMM-N" with the pattern \<^verbatim>\<open>^v([0-9]{6})-([0-9]+)$\<close> and
  "Strict semantic: MAJOR.MINOR.PATCH" with \<^verbatim>\<open>^([0-9]+)\.([0-9]+)\.([0-9]+)$\<close>. It
  differs from the revision above in the two patterns only.
\<close>

definition legacyRe :: regexp where
  "legacyRe =
     RCat (RLit CHR ''v'') (RCat (RRep 6 (RClass ''0123456789''))
       (RCat (RLit CHR ''-'') (RPlus (RClass ''0123456789''))))"

definition semanticRe :: regexp where
  "semanticRe =
     RCat (RPlus (RClass ''0123456789'')) (RCat (RLit CHR ''.'')
       (RCat (RPlus (RClass ''0123456789'')) (RCat (RLit CHR ''.'')
         (RPlus (RClass ''0123456789'')))))"

definition legacyRe_FindStringSubmatch :: "string \<Rightarrow> string list" where
  "legacyRe_FindStringSubmatch version =
     (if 9 \<le> length version \<and> hd version = CHR ''v''
         \<and> list_all is_digit (take 6 (drop 1 version))
         \<and> version ! 7 = CHR ''-''
         \<and> list_all is_digit (drop 8 version)
      then [version, take 6 (drop 1 version), drop 8 version]
      else [])"

definition semanticRe_FindStringSubmatch :: "string \<Rightarrow> string list" where
  "semanticRe_FindStringSubmatch version =
     (let g1 = takeWhile is_digit version; r1 = dropWhile is_digit version in
      if g1 = [] \<or> r1 = [] \<or> hd r1 \<noteq> CHR ''.'' then []
      else
        let g2 = takeWhile is_digit (tl r1); r2 = dropWhile is_digit (tl r1) in
        if g2 = [] \<or> r2 = [] \<or> hd r2 \<noteq> CHR ''.'' then []
        else
          let g3 = takeWhile is_digit (tl r2); r3 = dropWhile is_digit (tl r2) in
          if g3 = [] \<or> r3 \<noteq> [] then []
          else [version, g1, g2, g3])"

definition parseTFEVersionDetailed_strict :: "string \<Rightarrow> int \<times> bool \<times> error option" where
  "parseTFEVersionDetailed_strict version =
     (let m = legacyRe_FindStringSubmatch version in
      if length m = 3 then
        (case Atoi (m ! 1 @ m ! 2) of
           Inl err \<Rightarrow> (0, False, Some (Errorf_legacy version err))
         | Inr num \<Rightarrow> (num, False, None))
      else
        let m = semanticRe_FindStringSubmatch version in
        if length m = 4 then
          (case Atoi (m ! 1) of
             Inl err \<Rightarrow> (0, False, Some (Errorf_major version err))
           | Inr major \<Rightarrow>
          (case Atoi (m ! 2) of
             Inl err \<Rightarrow> (0, False, Some (Errorf_minor version err))
           | Inr minor \<Rightarrow>
          (case Atoi (m ! 3) of
             Inl err \<Rightarrow> (0, False, Some (Errorf_patch version err))
           | Inr patch \<Rightarrow> (encode_semantic major minor patch, True, None))))
        else (0, False, Some (Errorf_malformed version)))"

definition parseTFEVersionDetailed_strict_semantic_first :: "string \<Rightarrow> int \<times> bool \<times> error option" where
  "parseTFEVersionDetailed_strict_semantic_first version =
     (let m = semanticRe_FindStringSubmatch version in
      if length m = 4 then
        (case Atoi (m ! 1) of
           Inl err \<Rightarrow> (0, False, Some (Errorf_major version err))
         | Inr major \<Rightarrow>
        (case Atoi (m ! 2) of
           Inl err \<Rightarrow> (0, False, Some (Errorf_minor version err))
         | Inr minor \<Rightarrow>
        (case Atoi (m ! 3) of
           Inl err \<Rightarrow> (0, False, Some (Errorf_patch version err))
         | Inr patch \<Rightarrow> (encode_semantic major minor patch, True, None))))
      else
        let m = legacyRe_FindStringSubmatch version in
        if length m = 3 then
          (case Atoi (m ! 1 @ m ! 2) of
             Inl err \<Rightarrow> (0, False, Some (Errorf_legacy version err))
           | Inr num \<Rightarrow> (num, False, None))
        else (0, False, Some (Errorf_malformed version)))"

section \<open>Lifecycle guard: proofs\<close>

lemma contains_loop_set: "contains_loop f finalizer = (finalizer \<in> set f)"
  by (induction f) auto

lemma ContainsFinalizer_token: "ContainsFinalizer o' finalizer = token_present o' finalizer"
  by (simp add: ContainsFinalizer_def GetFinalizers_def token_present_def contains_loop_set)

lemma IsZero_marker: "IsZero (GetDeletionTimestamp o') = (\<not> marker_present o')"
proof (cases "DeletionTimestamp o'")
  case None
  then show ?thesis
    by (simp add: IsZero_def GetDeletionTimestamp_def marker_present_def)
next
  case (Some x)
  then show ?thesis
    by (cases x) (simp add: IsZero_def GetDeletionTimestamp_def marker_present_def)
qed

section \<open>Go integers and decimal conversion: proofs\<close>

lemma wrap64_id: "MinInt64 \<le> x \<Longrightarrow> x \<le> MaxInt64 \<Longrightarrow> wrap64 x = x"
  by (simp add: wrap64_def MinInt64_def MaxInt64_def)

lemma wrap64_range: "MinInt64 \<le> wrap64 x \<and> wrap64 x \<le> MaxInt64"
  unfolding wrap64_def MinInt64_def MaxInt64_def
  using pos_mod_bound [of 18446744073709551616 "x + 9223372036854775808"]
        pos_mod_sign [of 18446744073709551616 "x + 9223372036854775808"]
  by simp

lemma is_digit_cases:
  "is_digit c = (c = CHR ''0'' \<or> c = CHR ''1'' \<or> c = CHR ''2'' \<or> c = CHR ''3'' \<or> c = CHR ''4''
     \<or> c = CHR ''5'' \<or> c = CHR ''6'' \<or> c = CHR ''7'' \<or> c = CHR ''8'' \<or> c = CHR ''9'')"
  by (simp add: is_digit_def)

lemma digit_value_range: "is_digit c \<Longrightarrow> 0 \<le> digit_value c \<and> digit_value c \<le> 9"
  by (auto simp: is_digit_cases digit_value_def)

lemma is_digit_not_special:
  "is_digit c \<Longrightarrow> c \<noteq> CHR ''v'' \<and> c \<noteq> CHR ''-'' \<and> c \<noteq> CHR ''+'' \<and> c \<noteq> CHR ''.''"
  by (auto simp: is_digit_cases)

lemma decimal_loop_append:
  "decimal_loop n (s @ t) = decimal_loop (decimal_loop n s) t"
  by (induction s arbitrary: n) simp_all

lemma decimal_loop_shift:
  "decimal_loop n s = n * 10 ^ length s + decimal_loop 0 s"
proof (induction s arbitrary: n)
  case Nil
  then show ?case by simp
next
  case (Cons ch s)
  have "decimal_loop n (ch # s) = decimal_loop (n * 10 + digit_value ch) s" by simp
  also have "\<dots> = (n * 10 + digit_value ch) * 10 ^ length s + decimal_loop 0 s"
    by (rule Cons.IH)
  also have "decimal_loop 0 (ch # s) = digit_value ch * 10 ^ length s + decimal_loop 0 s"
    using Cons.IH [of "digit_value ch"] by simp
  ultimately show ?case by (simp add: algebra_simps)
qed

lemma decimal_append: "decimal (s @ t) = decimal s * 10 ^ length t + decimal t"
  unfolding decimal_def
  by (simp add: decimal_loop_append decimal_loop_shift [of "decimal_loop 0 s" t])

lemma decimal_snoc: "decimal [] = 0" "decimal (s @ [c]) = decimal s * 10 + digit_value c"
  using decimal_append [of s "[c]"] by (simp_all add: decimal_def)

lemma decimal_bounds: "list_all is_digit s \<Longrightarrow> 0 \<le> decimal s \<and> decimal s < 10 ^ length s"
proof (induction s rule: rev_induct)
  case Nil
  then show ?case by (simp add: decimal_def)
next
  case (snoc c s)
  then have s: "0 \<le> decimal s" "decimal s + 1 \<le> 10 ^ length s" and c: "is_digit c" by simp_all
  have d: "decimal [c] = digit_value c" by (simp add: decimal_def)
  have e: "decimal (s @ [c]) = decimal s * 10 + digit_value c"
    using decimal_append [of s "[c]"] d by simp
  from s(2) have "(decimal s + 1) * 10 \<le> 10 ^ length s * 10" by (rule mult_right_mono) simp
  with s(1) digit_value_range [OF c] e show ?case by simp
qed

lemma Atoi_digits:
  assumes "s \<noteq> []" and "list_all is_digit s"
  shows "Atoi s = (if MaxInt64 < decimal s then Inl (NumError ''Atoi'' s ErrRange) else Inr (decimal s))"
proof -
  from assms obtain c r where s: "s = c # r" and c: "is_digit c" by (cases s) auto
  from is_digit_not_special [OF c] have "hd s \<noteq> CHR ''-''" "hd s \<noteq> CHR ''+''" by (simp_all add: s)
  with assms show ?thesis by (simp add: Atoi_def)
qed

lemma Atoi_digits_ok:
  "s \<noteq> [] \<Longrightarrow> list_all is_digit s \<Longrightarrow> decimal s \<le> MaxInt64 \<Longrightarrow> Atoi s = Inr (decimal s)"
  by (simp add: Atoi_digits)

lemma Atoi_digits_range:
  "s \<noteq> [] \<Longrightarrow> list_all is_digit s \<Longrightarrow> MaxInt64 < decimal s \<Longrightarrow>
     Atoi s = Inl (NumError ''Atoi'' s ErrRange)"
  by (simp add: Atoi_digits)

section \<open>The legacy pattern\<close>

lemma legacy_match_length: "length (legacyRegexp_FindStringSubmatch v) \<in> {0, 3}"
  by (simp add: legacyRegexp_FindStringSubmatch_def)

lemma legacy_form_match:
  assumes "legacy_form v ym bn"
  shows "legacyRegexp_FindStringSubmatch v = [v, ym, bn]"
proof -
  from assms have v: "v = CHR ''v'' # ym @ CHR ''-'' # bn" and l: "length ym = 6" "length bn = 1"
    and d: "list_all is_digit ym" "list_all is_digit bn"
    by (simp_all add: legacy_form_def)
  from l(2) d(2) obtain r where bn: "bn = [r]" and r: "is_digit r" by (cases bn) auto
  have 1: "length v = 9" using v l by simp
  have 2: "hd v = CHR ''v''" using v by simp
  have 3: "take 6 (drop 1 v) = ym" using v l by simp
  have 4: "v ! 7 = CHR ''-''" using l(1) unfolding v by (simp add: nth_append)
  have 5: "v ! 8 = r" using l(1) unfolding v bn by (simp add: nth_append)
  have 6: "drop 8 v = bn" using l(1) unfolding v by simp
  show ?thesis
    unfolding legacyRegexp_FindStringSubmatch_def 1 2 3 4 5 6 using d(1) r by simp
qed

lemma nine_bytes_split:
  assumes "length v = 9"
  shows "v = hd v # take 6 (drop 1 v) @ (v ! 7) # drop 8 v"
proof -
  from assms obtain x xs where v: "v = x # xs" by (cases v) auto
  have "v = take 7 v @ v ! 7 # drop (Suc 7) v"
    by (rule id_take_nth_drop) (simp add: assms)
  moreover have "take 7 v = hd v # take 6 (drop 1 v)"
    unfolding v by (simp add: take_Cons')
  ultimately show ?thesis by simp
qed

lemma legacy_match_form:
  assumes "legacyRegexp_FindStringSubmatch v \<noteq> []"
  shows "legacy_form v (take 6 (drop 1 v)) (drop 8 v)
         \<and> legacyRegexp_FindStringSubmatch v = [v, take 6 (drop 1 v), drop 8 v]"
proof -
  have c: "length v = 9 \<and> hd v = CHR ''v'' \<and> list_all is_digit (take 6 (drop 1 v))
    \<and> v ! 7 = CHR ''-'' \<and> is_digit (v ! 8)"
    using assms unfolding legacyRegexp_FindStringSubmatch_def by (meson list.distinct(1))
  then have m: "legacyRegexp_FindStringSubmatch v = [v, take 6 (drop 1 v), drop 8 v]"
    unfolding legacyRegexp_FindStringSubmatch_def by simp
  from c have len: "length v = 9" by simp
  have d8: "drop 8 v = [v ! 8]"
    using Cons_nth_drop_Suc [of 8 v] len by simp
  have "legacy_form v (take 6 (drop 1 v)) (drop 8 v)"
    unfolding legacy_form_def
    using nine_bytes_split [OF len] c d8 by simp
  with m show ?thesis by simp
qed

lemma legacy_match_iff:
  "legacyRegexp_FindStringSubmatch v \<noteq> [] \<longleftrightarrow> (\<exists>ym bn. legacy_form v ym bn)"
proof
  assume "legacyRegexp_FindStringSubmatch v \<noteq> []"
  from legacy_match_form [OF this] show "\<exists>ym bn. legacy_form v ym bn" by blast
next
  assume "\<exists>ym bn. legacy_form v ym bn"
  then obtain ym bn where "legacy_form v ym bn" by blast
  from legacy_form_match [OF this] show "legacyRegexp_FindStringSubmatch v \<noteq> []" by simp
qed

section \<open>The semantic pattern\<close>

lemma digit_run:
  assumes "list_all P a" and "r = [] \<or> \<not> P (hd r)"
  shows "takeWhile P (a @ r) = a" and "dropWhile P (a @ r) = r"
proof -
  from assms(1) have a: "\<forall>x\<in>set a. P x" by (simp add: list_all_iff)
  from assms(2) have r: "takeWhile P r = [] \<and> dropWhile P r = r" by (cases r) auto
  from a r show "takeWhile P (a @ r) = a" by (simp add: takeWhile_append2)
  from a r show "dropWhile P (a @ r) = r" by (simp add: dropWhile_append2)
qed

lemma suffix_ok_no_digit: "suffix_ok t \<Longrightarrow> t = [] \<or> \<not> is_digit (hd t)"
  unfolding suffix_ok_def using is_digit_not_special by blast

lemma semantic_form_match:
  assumes "semantic_form v a b c t"
  shows "semanticRegexp_FindStringSubmatch v = [v, a, b, c]"
proof -
  from assms have v: "v = a @ CHR ''.'' # b @ CHR ''.'' # c @ t"
    and a: "a \<noteq> []" "list_all is_digit a" and b: "b \<noteq> []" "list_all is_digit b"
    and c: "c \<noteq> []" "list_all is_digit c" and t: "suffix_ok t"
    by (simp_all add: semantic_form_def)
  have nd: "\<not> is_digit CHR ''.''" by (simp add: is_digit_def)
  have 1: "takeWhile is_digit v = a" "dropWhile is_digit v = CHR ''.'' # b @ CHR ''.'' # c @ t"
    unfolding v using digit_run [OF a(2), of "CHR ''.'' # b @ CHR ''.'' # c @ t"] nd by simp_all
  have 2: "takeWhile is_digit (b @ CHR ''.'' # c @ t) = b"
    "dropWhile is_digit (b @ CHR ''.'' # c @ t) = CHR ''.'' # c @ t"
    using digit_run [OF b(2), of "CHR ''.'' # c @ t"] nd by simp_all
  have 3: "takeWhile is_digit (c @ t) = c" "dropWhile is_digit (c @ t) = t"
    using digit_run [OF c(2), of t] suffix_ok_no_digit [OF t] by simp_all
  show ?thesis
    unfolding semanticRegexp_FindStringSubmatch_def 1 Let_def
    using a(1) b(1) c(1) t by (simp add: 2 3)
qed

lemma takeWhile_digits: "list_all is_digit (takeWhile is_digit s)"
  by (induction s) simp_all

lemma semantic_match_form:
  assumes "semanticRegexp_FindStringSubmatch v \<noteq> []"
  shows "\<exists>a b c t. semantic_form v a b c t \<and> semanticRegexp_FindStringSubmatch v = [v, a, b, c]"
proof -
  define g1 where "g1 = takeWhile is_digit v"
  define r1 where "r1 = dropWhile is_digit v"
  define g2 where "g2 = takeWhile is_digit (tl r1)"
  define r2 where "r2 = dropWhile is_digit (tl r1)"
  define g3 where "g3 = takeWhile is_digit (tl r2)"
  define r3 where "r3 = dropWhile is_digit (tl r2)"
  have unf: "semanticRegexp_FindStringSubmatch v =
     (if g1 = [] \<or> r1 = [] \<or> hd r1 \<noteq> CHR ''.'' then []
      else if g2 = [] \<or> r2 = [] \<or> hd r2 \<noteq> CHR ''.'' then []
      else if g3 = [] \<or> \<not> suffix_ok r3 then [] else [v, g1, g2, g3])"
    by (simp add: semanticRegexp_FindStringSubmatch_def Let_def g1_def r1_def g2_def r2_def g3_def r3_def)
  from assms have c1: "g1 \<noteq> []" "r1 \<noteq> []" "hd r1 = CHR ''.''" unfolding unf by (auto split: if_splits)
  from assms have c2: "g2 \<noteq> []" "r2 \<noteq> []" "hd r2 = CHR ''.''" unfolding unf by (auto split: if_splits)
  from assms have c3: "g3 \<noteq> []" "suffix_ok r3" unfolding unf by (auto split: if_splits)
  have m: "semanticRegexp_FindStringSubmatch v = [v, g1, g2, g3]"
    unfolding unf using c1 c2 c3 by simp
  have v1: "v = g1 @ r1" by (simp add: g1_def r1_def)
  have e1: "r1 = CHR ''.'' # tl r1" using c1 by (cases r1) auto
  have v2: "tl r1 = g2 @ r2" by (simp add: g2_def r2_def)
  have e2: "r2 = CHR ''.'' # tl r2" using c2 by (cases r2) auto
  have v3: "tl r2 = g3 @ r3" by (simp add: g3_def r3_def)
  have "v = g1 @ CHR ''.'' # g2 @ CHR ''.'' # g3 @ r3"
    using v1 e1 v2 e2 v3 by metis
  moreover have "list_all is_digit g1" "list_all is_digit g2" "list_all is_digit g3"
    by (simp_all add: g1_def g2_def g3_def takeWhile_digits)
  ultimately have "semantic_form v g1 g2 g3 r3"
    unfolding semantic_form_def using c1(1) c2(1) c3 by simp
  with m show ?thesis by blast
qed

lemma semantic_match_length: "length (semanticRegexp_FindStringSubmatch v) \<in> {0, 4}"
  by (simp add: semanticRegexp_FindStringSubmatch_def Let_def)

lemma semantic_match_iff:
  "semanticRegexp_FindStringSubmatch v \<noteq> [] \<longleftrightarrow> (\<exists>a b c t. semantic_form v a b c t)"
proof
  assume "semanticRegexp_FindStringSubmatch v \<noteq> []"
  from semantic_match_form [OF this] show "\<exists>a b c t. semantic_form v a b c t" by blast
next
  assume "\<exists>a b c t. semantic_form v a b c t"
  then obtain a b c t where "semantic_form v a b c t" by blast
  from semantic_form_match [OF this] show "semanticRegexp_FindStringSubmatch v \<noteq> []" by simp
qed

lemma patterns_disjoint:
  "legacyRegexp_FindStringSubmatch v = [] \<or> semanticRegexp_FindStringSubmatch v = []"
proof (cases "legacyRegexp_FindStringSubmatch v = []")
  case True
  then show ?thesis by simp
next
  case False
  from legacy_match_form [OF this] obtain r where "v = CHR ''v'' # r"
    by (auto simp: legacy_form_def)
  moreover have "\<not> is_digit CHR ''v''" by (simp add: is_digit_def)
  ultimately have "takeWhile is_digit v = []" by simp
  then show ?thesis by (simp add: semanticRegexp_FindStringSubmatch_def)
qed

section \<open>The matchers accept what the patterns describe\<close>

lemma star_singles: "star {[c] | c. P c} = {s. list_all P s}"
proof (intro set_eqI iffI)
  fix s assume "s \<in> star {[c] | c. P c}"
  then show "s \<in> {s. list_all P s}"
    by (induction rule: star.induct) auto
next
  fix s assume "s \<in> {s. list_all P s}"
  then have "list_all P s" by simp
  then show "s \<in> star {[c] | c. P c}"
  proof (induction s)
    case Nil
    show ?case by (rule star_empty)
  next
    case (Cons c s)
    then have "[c] \<in> {[c] | c. P c}" "s \<in> star {[c] | c. P c}" by auto
    from star_step [OF this] show ?case by simp
  qed
qed

lemma pow_singles: "pow n {[c] | c. P c} = {s. length s = n \<and> list_all P s}"
proof (induction n)
  case 0
  show ?case by auto
next
  case (Suc n)
  show ?case
  proof (intro set_eqI iffI)
    fix s assume "s \<in> pow (Suc n) {[c] | c. P c}"
    then obtain c w where "s = c # w" "P c" "w \<in> pow n {[c] | c. P c}"
      by (auto simp: conc_def)
    with Suc show "s \<in> {s. length s = Suc n \<and> list_all P s}" by simp
  next
    fix s assume "s \<in> {s. length s = Suc n \<and> list_all P s}"
    then obtain c w where s: "s = c # w" and c: "P c" and w: "length w = n" "list_all P w"
      by (cases s) auto
    from w Suc have "w \<in> pow n {[c] | c. P c}" by simp
    with c have "[c] @ w \<in> conc {[c] | c. P c} (pow n {[c] | c. P c})"
      unfolding conc_def by blast
    then show "s \<in> pow (Suc n) {[c] | c. P c}" by (simp add: s)
  qed
qed

lemma lang_digit: "lang (RClass ''0123456789'') = {[c] | c. is_digit c}"
  by (simp add: is_digit_def)

lemma lang_digits_rep:
  "lang (RRep n (RClass ''0123456789'')) = {s. length s = n \<and> list_all is_digit s}"
  unfolding lang.simps(8) lang_digit by (rule pow_singles)

lemma lang_digits_plus:
  "lang (RPlus (RClass ''0123456789'')) = {s. s \<noteq> [] \<and> list_all is_digit s}"
proof -
  have "conc {[c] | c. is_digit c} {s. list_all is_digit s} = {s. s \<noteq> [] \<and> list_all is_digit s}"
  proof (intro set_eqI iffI)
    fix s assume "s \<in> conc {[c] | c. is_digit c} {s. list_all is_digit s}"
    then show "s \<in> {s. s \<noteq> [] \<and> list_all is_digit s}" by (auto simp: conc_def)
  next
    fix s assume "s \<in> {s. s \<noteq> [] \<and> list_all is_digit s}"
    then obtain c w where "s = [c] @ w" "is_digit c" "list_all is_digit w" by (cases s) auto
    then show "s \<in> conc {[c] | c. is_digit c} {s. list_all is_digit s}"
      unfolding conc_def by blast
  qed
  then show ?thesis
    unfolding lang.simps(7) lang_digit star_singles .
qed

lemma lang_suffix:
  "lang (ROpt (RCat (RClass ''-+'') (RStar RAny))) = {t. suffix_ok t}"
proof -
  have a: "lang (RStar RAny) = {s. list_all (\<lambda>c. c \<noteq> CHR 0x0A) s}"
    unfolding lang.simps(6) lang.simps(3) by (rule star_singles)
  have "conc (lang (RClass ''-+'')) {s. list_all (\<lambda>c. c \<noteq> CHR 0x0A) s}
      = {t. t \<noteq> [] \<and> (hd t = CHR ''-'' \<or> hd t = CHR ''+'') \<and> list_all (\<lambda>c. c \<noteq> CHR 0x0A) (tl t)}"
  proof (intro set_eqI iffI)
    fix t assume "t \<in> conc (lang (RClass ''-+'')) {s. list_all (\<lambda>c. c \<noteq> CHR 0x0A) s}"
    then show "t \<in> {t. t \<noteq> [] \<and> (hd t = CHR ''-'' \<or> hd t = CHR ''+'') \<and> list_all (\<lambda>c. c \<noteq> CHR 0x0A) (tl t)}"
      by (auto simp: conc_def)
  next
    fix t assume "t \<in> {t. t \<noteq> [] \<and> (hd t = CHR ''-'' \<or> hd t = CHR ''+'') \<and> list_all (\<lambda>c. c \<noteq> CHR 0x0A) (tl t)}"
    then obtain c w where "t = [c] @ w" "c = CHR ''-'' \<or> c = CHR ''+''" "list_all (\<lambda>c. c \<noteq> CHR 0x0A) w"
      by (cases t) auto
    then show "t \<in> conc (lang (RClass ''-+'')) {s. list_all (\<lambda>c. c \<noteq> CHR 0x0A) s}"
      unfolding conc_def lang.simps(2) by (simp del: append.simps) blast
  qed
  then show ?thesis
    unfolding lang.simps(5) lang.simps(4) a by (auto simp: suffix_ok_def)
qed

lemma conc_lit: "conc {[c]} B = {c # w | w. w \<in> B}"
  by (auto simp: conc_def)

lemma legacyRegexp_lang: "version \<in> lang legacyRegexp \<longleftrightarrow> legacy_grammar version"
proof -
  have "lang legacyRegexp =
      conc {''v''} (conc {s. length s = 6 \<and> list_all is_digit s}
        (conc {''-''} {s. length s = 1 \<and> list_all is_digit s}))"
    unfolding legacyRegexp_def lang.simps(4) lang_digits_rep by simp
  also have "\<dots> = {CHR ''v'' # ym @ CHR ''-'' # bn | ym bn.
      length ym = 6 \<and> list_all is_digit ym \<and> length bn = 1 \<and> list_all is_digit bn}"
    unfolding conc_lit by (auto simp: conc_def)
  finally show ?thesis
    unfolding legacy_grammar_def legacy_form_def by blast
qed

lemma semanticRegexp_lang: "version \<in> lang semanticRegexp \<longleftrightarrow> semantic_grammar version"
proof -
  let ?D = "{s. s \<noteq> [] \<and> list_all is_digit s}"
  have "lang semanticRegexp =
      conc ?D (conc {''.''} (conc ?D (conc {''.''} (conc ?D {t. suffix_ok t}))))"
    unfolding semanticRegexp_def lang.simps(4) lang_digits_plus lang_suffix by simp
  also have "\<dots> = {a @ CHR ''.'' # b @ CHR ''.'' # c @ t | a b c t.
      a \<in> ?D \<and> b \<in> ?D \<and> c \<in> ?D \<and> suffix_ok t}"
    unfolding conc_lit by (auto simp: conc_def) blast
  finally show ?thesis
    unfolding semantic_grammar_def semantic_form_def by blast
qed


lemma legacyRegexp_match:
  "legacyRegexp_FindStringSubmatch version \<noteq> [] \<longleftrightarrow> version \<in> lang legacyRegexp"
  by (simp add: legacy_match_iff legacyRegexp_lang legacy_grammar_def)

lemma semanticRegexp_match:
  "semanticRegexp_FindStringSubmatch version \<noteq> [] \<longleftrightarrow> version \<in> lang semanticRegexp"
  by (simp add: semantic_match_iff semanticRegexp_lang semantic_grammar_def)

section \<open>The stricter revision: proofs\<close>

lemma legacyRe_lang: "version \<in> lang legacyRe \<longleftrightarrow> (\<exists>ym bn. legacy_form_spec version ym bn)"
proof -
  have "lang legacyRe =
      conc {''v''} (conc {s. length s = 6 \<and> list_all is_digit s}
        (conc {''-''} {s. s \<noteq> [] \<and> list_all is_digit s}))"
    unfolding legacyRe_def lang.simps(4) lang_digits_rep lang_digits_plus by simp
  also have "\<dots> = {CHR ''v'' # ym @ CHR ''-'' # bn | ym bn.
      length ym = 6 \<and> list_all is_digit ym \<and> bn \<noteq> [] \<and> list_all is_digit bn}"
    unfolding conc_lit by (auto simp: conc_def)
  finally show ?thesis
    unfolding legacy_form_spec_def by blast
qed

lemma legacy_form_spec_match:
  assumes "legacy_form_spec v ym bn"
  shows "legacyRe_FindStringSubmatch v = [v, ym, bn]"
proof -
  from assms have v: "v = CHR ''v'' # ym @ CHR ''-'' # bn" and l: "length ym = 6" "bn \<noteq> []"
    and d: "list_all is_digit ym" "list_all is_digit bn"
    by (simp_all add: legacy_form_spec_def)
  from l(2) have "1 \<le> length bn" by (cases bn) simp_all
  then have 1: "9 \<le> length v" using l(1) unfolding v by simp
  have 2: "hd v = CHR ''v''" using v by simp
  have 3: "take 6 (drop 1 v) = ym" using v l by simp
  have 4: "v ! 7 = CHR ''-''" using l(1) unfolding v by (simp add: nth_append)
  have 6: "drop 8 v = bn" using l(1) unfolding v by simp
  show ?thesis
    unfolding legacyRe_FindStringSubmatch_def 2 3 4 6 using 1 d by simp
qed

lemma legacyRe_match_form:
  assumes "legacyRe_FindStringSubmatch v \<noteq> []"
  shows "legacy_form_spec v (take 6 (drop 1 v)) (drop 8 v)"
proof -
  have c: "9 \<le> length v \<and> hd v = CHR ''v'' \<and> list_all is_digit (take 6 (drop 1 v))
    \<and> v ! 7 = CHR ''-'' \<and> list_all is_digit (drop 8 v)"
    using assms unfolding legacyRe_FindStringSubmatch_def by (meson list.distinct(1))
  then have len: "7 < length v" by simp
  from c have hv: "hd v = CHR ''v''" and h7: "v ! 7 = CHR ''-''"
    and d1: "list_all is_digit (take 6 (drop 1 v))" and d2: "list_all is_digit (drop 8 v)"
    by simp_all
  from len obtain x xs where v: "v = x # xs" by (cases v) auto
  have "v = take 7 v @ v ! 7 # drop (Suc 7) v"
    using len by (rule id_take_nth_drop)
  moreover have "take 7 v = hd v # take 6 (drop 1 v)"
    unfolding v by (simp add: take_Cons')
  ultimately have "v = hd v # take 6 (drop 1 v) @ (v ! 7) # drop 8 v" by simp
  then have e: "v = CHR ''v'' # take 6 (drop 1 v) @ CHR ''-'' # drop 8 v"
    unfolding hv h7 .
  have ne: "drop 8 v \<noteq> []" using c by simp
  have l6: "length (take 6 (drop 1 v)) = 6" using len by (simp add: min_def)
  show ?thesis
    unfolding legacy_form_spec_def by (intro conjI e l6 d1 ne d2)
qed

lemma legacyRe_match:
  "legacyRe_FindStringSubmatch version \<noteq> [] \<longleftrightarrow> version \<in> lang legacyRe"
  unfolding legacyRe_lang
  using legacyRe_match_form [of version] legacy_form_spec_match [of version] by fastforce

lemma parse_strict_legacy:
  assumes "legacy_form_spec v ym bn"
  shows "parseTFEVersionDetailed_strict v =
     (if MaxInt64 < decimal (ym @ bn)
      then (0, False, Some (Errorf_legacy v (NumError ''Atoi'' (ym @ bn) ErrRange)))
      else (decimal (ym @ bn), False, None))"
proof -
  from assms have ne: "ym @ bn \<noteq> []" and d: "list_all is_digit (ym @ bn)"
    by (simp_all add: legacy_form_spec_def)
  show ?thesis
    unfolding parseTFEVersionDetailed_strict_def legacy_form_spec_match [OF assms]
    by (simp add: Atoi_digits [OF ne d])
qed

lemma strict_revision_examples:
  "parseTFEVersionDetailed_strict ''v202409-10'' = (20240910, False, None)"
  "parseTFEVersionDetailed_strict ''v999999-9999999999999''
     = (0, False, Some (Errorf_legacy ''v999999-9999999999999''
          (NumError ''Atoi'' ''9999999999999999999'' ErrRange)))"
  "parseTFEVersionDetailed_strict ''1.0.0-alpha'' = (0, False, Some (Errorf_malformed ''1.0.0-alpha''))"
  "parseTFEVersionDetailed_strict ''1.0.0'' = (301000000, True, None)"
  by code_simp+

lemma strict_patterns_disjoint:
  "legacyRe_FindStringSubmatch v = [] \<or> semanticRe_FindStringSubmatch v = []"
proof (cases "legacyRe_FindStringSubmatch v = []")
  case True
  then show ?thesis by simp
next
  case False
  from legacyRe_match_form [OF this] obtain r where "v = CHR ''v'' # r"
    by (auto simp: legacy_form_spec_def)
  moreover have "\<not> is_digit CHR ''v''" by (simp add: is_digit_def)
  ultimately have "takeWhile is_digit v = []" by simp
  then show ?thesis by (simp add: semanticRe_FindStringSubmatch_def)
qed

section \<open>The classifier: proofs\<close>

lemma wrap64_diff_dvd: "18446744073709551616 dvd wrap64 x - x"
proof -
  define m :: int where "m = 18446744073709551616"
  define h :: int where "h = 9223372036854775808"
  have "wrap64 x - x = (x + h) mod m - (x + h)" by (simp add: wrap64_def m_def h_def)
  also have "\<dots> = - (m * ((x + h) div m))"
    using mult_div_mod_eq [of m "x + h"] by linarith
  finally show ?thesis unfolding m_def [symmetric] by simp
qed

lemma wrap64_cong: "18446744073709551616 dvd x - y \<Longrightarrow> wrap64 x = wrap64 y"
proof -
  assume "18446744073709551616 dvd x - y"
  then have "18446744073709551616 dvd (x + 9223372036854775808) - (y + 9223372036854775808)" by simp
  then have "(x + 9223372036854775808) mod 18446744073709551616 = (y + 9223372036854775808) mod 18446744073709551616"
    by (simp only: mod_eq_dvd_iff)
  then show ?thesis by (simp only: wrap64_def)
qed

lemma wrap64_add_left: "wrap64 (wrap64 x + y) = wrap64 (x + y)"
proof (rule wrap64_cong)
  have "wrap64 x + y - (x + y) = wrap64 x - x" by simp
  then show "18446744073709551616 dvd wrap64 x + y - (x + y)"
    using wrap64_diff_dvd [of x] by simp
qed

lemma wrap64_add_right: "wrap64 (x + wrap64 y) = wrap64 (x + y)"
  using wrap64_add_left [of y x] by (simp add: add.commute)

lemma encode_semantic_wrap:
  "encode_semantic major minor patch
     = wrap64 (300000000 + major * 1000000 + minor * 1000 + patch)"
  by (simp only: encode_semantic_def go_add_def go_mul_def semanticVersionBase_def
        wrap64_add_left wrap64_add_right)

lemma encode_semantic_exact:
  assumes "0 \<le> major" "0 \<le> minor" "0 \<le> patch"
    and "300000000 + major * 1000000 + minor * 1000 + patch \<le> MaxInt64"
  shows "encode_semantic major minor patch = 300000000 + major * 1000000 + minor * 1000 + patch"
proof -
  have "MinInt64 \<le> 300000000 + major * 1000000 + minor * 1000 + patch"
    using assms(1-3) by (simp add: MinInt64_def)
  with assms(4) show ?thesis by (simp add: encode_semantic_wrap wrap64_id)
qed

lemma parse_legacy:
  assumes "legacy_form v ym bn"
  shows "parseTFEVersionDetailed v = (decimal (ym @ bn), False, None)"
proof -
  from assms have l: "length ym = 6" "length bn = 1"
    and d: "list_all is_digit ym" "list_all is_digit bn"
    by (simp_all add: legacy_form_def)
  have ne: "ym @ bn \<noteq> []" using l by auto
  have dd: "list_all is_digit (ym @ bn)" using d by simp
  from decimal_bounds [OF dd] l have "decimal (ym @ bn) < 10 ^ 7" by simp
  then have "decimal (ym @ bn) \<le> MaxInt64" by (simp add: MaxInt64_def)
  from Atoi_digits_ok [OF ne dd this] legacy_form_match [OF assms]
  show ?thesis by (simp add: parseTFEVersionDetailed_def)
qed

lemma parse_semantic:
  assumes "semantic_form v a b c t"
  shows "parseTFEVersionDetailed v =
     (if MaxInt64 < decimal a then (0, False, Some (Errorf_major v (NumError ''Atoi'' a ErrRange)))
      else if MaxInt64 < decimal b then (0, False, Some (Errorf_minor v (NumError ''Atoi'' b ErrRange)))
      else if MaxInt64 < decimal c then (0, False, Some (Errorf_patch v (NumError ''Atoi'' c ErrRange)))
      else (encode_semantic (decimal a) (decimal b) (decimal c), True, None))"
proof -
  from assms have a: "a \<noteq> []" "list_all is_digit a" and b: "b \<noteq> []" "list_all is_digit b"
    and c: "c \<noteq> []" "list_all is_digit c"
    by (simp_all add: semantic_form_def)
  have l: "legacyRegexp_FindStringSubmatch v = []"
    using patterns_disjoint [of v] semantic_form_match [OF assms] by auto
  show ?thesis
    unfolding parseTFEVersionDetailed_def l semantic_form_match [OF assms] Let_def
    by (simp add: Atoi_digits [OF a] Atoi_digits [OF b] Atoi_digits [OF c])
qed

lemma parse_malformed:
  assumes "legacyRegexp_FindStringSubmatch v = []" "semanticRegexp_FindStringSubmatch v = []"
  shows "parseTFEVersionDetailed v = (0, False, Some (Errorf_malformed v))"
  by (simp add: parseTFEVersionDetailed_def assms)

lemma parse_cases:
  obtains (legacy) ym bn where "legacy_form v ym bn"
      "parseTFEVersionDetailed v = (decimal (ym @ bn), False, None)"
      "0 \<le> decimal (ym @ bn)" "decimal (ym @ bn) < 10000000"
  | (semantic) a b c t where "semantic_form v a b c t" "\<not> legacy_grammar v"
  | (malformed) "\<not> legacy_grammar v" "\<not> semantic_grammar v"
      "parseTFEVersionDetailed v = (0, False, Some (Errorf_malformed v))"
proof (cases "legacyRegexp_FindStringSubmatch v = []")
  case False
  from legacy_match_form [OF False] obtain ym bn where f: "legacy_form v ym bn" by blast
  then have d: "list_all is_digit (ym @ bn)" "length (ym @ bn) = 7" by (simp_all add: legacy_form_def)
  from decimal_bounds [OF d(1)] d(2) have "0 \<le> decimal (ym @ bn)" "decimal (ym @ bn) < 10000000"
    by simp_all
  with f parse_legacy [OF f] show ?thesis by (rule legacy)
next
  case True
  then have nl: "\<not> legacy_grammar v" by (simp add: legacy_grammar_def legacy_match_iff [symmetric])
  show ?thesis
  proof (cases "semanticRegexp_FindStringSubmatch v = []")
    case False
    from semantic_match_form [OF False] obtain a b c t where "semantic_form v a b c t" by blast
    then show ?thesis using nl by (rule semantic)
  next
    case s: True
    then have "\<not> semantic_grammar v" by (simp add: semantic_grammar_def semantic_match_iff [symmetric])
    with nl show ?thesis using parse_malformed [OF True s] by (rule malformed)
  qed
qed

lemma parse_semantic_ok:
  assumes "semantic_form v a b c t" "semantic_sum a b c \<le> MaxInt64"
  shows "parseTFEVersionDetailed v = (semantic_sum a b c, True, None)"
proof -
  from assms(1) have d: "list_all is_digit a" "list_all is_digit b" "list_all is_digit c"
    by (simp_all add: semantic_form_def)
  have n: "0 \<le> decimal a" "0 \<le> decimal b" "0 \<le> decimal c"
    using d decimal_bounds by blast+
  with assms(2) have le: "decimal a \<le> MaxInt64" "decimal b \<le> MaxInt64" "decimal c \<le> MaxInt64"
    by (simp_all add: semantic_sum_def)
  have "encode_semantic (decimal a) (decimal b) (decimal c) = semantic_sum a b c"
    using encode_semantic_exact [OF n] assms(2) by (simp add: semantic_sum_def)
  with le show ?thesis by (simp add: parse_semantic [OF assms(1)])
qed

lemma semantic_form_unique:
  assumes "semantic_form v a b c t" "semantic_form v a' b' c' t'"
  shows "a' = a \<and> b' = b \<and> c' = c \<and> t' = t"
proof -
  from semantic_form_match [OF assms(1)] semantic_form_match [OF assms(2)]
  have "a' = a \<and> b' = b \<and> c' = c" by simp
  with assms show ?thesis by (simp add: semantic_form_def)
qed

lemma parse_error_shape:
  assumes "snd (snd (parseTFEVersionDetailed v)) = Some e"
  shows "parseTFEVersionDetailed v = (0, False, Some e) \<and> error_version e = v"
proof (cases v rule: parse_cases)
  case (legacy ym bn)
  with assms show ?thesis by simp
next
  case (semantic a b c t)
  from assms show ?thesis
    unfolding parse_semantic [OF semantic(1)] by (auto split: if_splits)
next
  case malformed
  with assms show ?thesis by auto
qed

lemma parse_error_iff:
  "(\<exists>e. snd (snd (parseTFEVersionDetailed v)) = Some e)
     \<longleftrightarrow> (\<not> legacy_grammar v \<and> \<not> semantic_grammar v) \<or> numeric_field_fails v"
proof (cases v rule: parse_cases)
  case (legacy ym bn)
  have "\<not> numeric_field_fails v"
  proof
    assume "numeric_field_fails v"
    then consider ym' bn' where "legacy_form v ym' bn'" "isl (Atoi (ym' @ bn'))"
      | a b c t where "semantic_form v a b c t"
      unfolding numeric_field_fails_def by blast
    then show False
    proof cases
      case 1
      from legacy_form_match [OF 1(1)] legacy_form_match [OF legacy(1)] have "ym' @ bn' = ym @ bn" by simp
      moreover have "Atoi (ym @ bn) = Inr (decimal (ym @ bn))"
        using legacy(1,4) by (intro Atoi_digits_ok) (auto simp: legacy_form_def MaxInt64_def)
      ultimately show False using 1(2) by simp
    next
      case 2
      from semantic_form_match [OF 2] legacy_form_match [OF legacy(1)] patterns_disjoint [of v]
      show False by simp
    qed
  qed
  moreover have "legacy_grammar v" using legacy(1) unfolding legacy_grammar_def by blast
  ultimately show ?thesis using legacy(2) by simp
next
  case (semantic a b c t)
  have g: "semantic_grammar v" using semantic(1) unfolding semantic_grammar_def by blast
  from semantic(1) have ne: "a \<noteq> []" "b \<noteq> []" "c \<noteq> []"
    and d: "list_all is_digit a" "list_all is_digit b" "list_all is_digit c"
    by (simp_all add: semantic_form_def)
  have f: "numeric_field_fails v \<longleftrightarrow> isl (Atoi a) \<or> isl (Atoi b) \<or> isl (Atoi c)"
  proof
    assume "numeric_field_fails v"
    then obtain a' b' c' t' where "semantic_form v a' b' c' t'"
      "isl (Atoi a') \<or> isl (Atoi b') \<or> isl (Atoi c')"
      unfolding numeric_field_fails_def using semantic(2) legacy_grammar_def by blast
    with semantic_form_unique [OF semantic(1) this(1)]
    show "isl (Atoi a) \<or> isl (Atoi b) \<or> isl (Atoi c)" by simp
  next
    assume "isl (Atoi a) \<or> isl (Atoi b) \<or> isl (Atoi c)"
    with semantic(1) show "numeric_field_fails v" unfolding numeric_field_fails_def by blast
  qed
  show ?thesis
    unfolding f parse_semantic [OF semantic(1)] Atoi_digits [OF ne(1) d(1)]
      Atoi_digits [OF ne(2) d(2)] Atoi_digits [OF ne(3) d(3)]
    using g by simp
next
  case malformed
  then show ?thesis by simp
qed

section \<open>The test tables of the repository\<close>

text \<open>
  The entries of the unit tests for \<^verbatim>\<open>parseTFEVersionDetailed\<close>, \<^verbatim>\<open>parseTFEVersion\<close> and the
  algorithm selection, evaluated on the model.
\<close>

lemma test_valid_legacy_versions:
  "parseTFEVersionDetailed ''v202502-1'' = (2025021, False, None)"
  "parseTFEVersionDetailed ''v202409-1'' = (2024091, False, None)"
  "parseTFEVersionDetailed ''v202408-1'' = (2024081, False, None)"
  "parseTFEVersionDetailed ''v202012-5'' = (2020125, False, None)"
  by code_simp+

lemma test_invalid_legacy_versions:
  "snd (snd (parseTFEVersionDetailed ''202502-1'')) \<noteq> None"
  "snd (snd (parseTFEVersionDetailed ''v20250-1'')) \<noteq> None"
  "snd (snd (parseTFEVersionDetailed ''v202409-10'')) \<noteq> None"
  by code_simp+

lemma test_valid_semantic_versions:
  "parseTFEVersionDetailed ''1.0.0'' = (300000000 + 1 * 1000000 + 0 * 1000 + 0, True, None)"
  "parseTFEVersionDetailed ''1.1.0'' = (300000000 + 1 * 1000000 + 1 * 1000 + 0, True, None)"
  "parseTFEVersionDetailed ''2.0.3'' = (300000000 + 2 * 1000000 + 0 * 1000 + 3, True, None)"
  "parseTFEVersionDetailed ''10.12.5'' = (300000000 + 10 * 1000000 + 12 * 1000 + 5, True, None)"
  "parseTFEVersionDetailed ''1.0.0-alpha'' = (300000000 + 1 * 1000000 + 0 * 1000 + 0, True, None)"
  "parseTFEVersionDetailed ''2.1.3-beta.1'' = (300000000 + 2 * 1000000 + 1 * 1000 + 3, True, None)"
  "parseTFEVersionDetailed ''1.0.0+build.123'' = (300000000 + 1 * 1000000 + 0 * 1000 + 0, True, None)"
  "parseTFEVersionDetailed ''1.2.3-alpha+build'' = (300000000 + 1 * 1000000 + 2 * 1000 + 3, True, None)"
  by code_simp+

lemma test_invalid_semantic_versions:
  "snd (snd (parseTFEVersionDetailed ''1.0'')) \<noteq> None"
  "snd (snd (parseTFEVersionDetailed ''1.0.0.1'')) \<noteq> None"
  "snd (snd (parseTFEVersionDetailed ''a.0.0'')) \<noteq> None"
  "snd (snd (parseTFEVersionDetailed ''1.b.0'')) \<noteq> None"
  "snd (snd (parseTFEVersionDetailed ''1.0.c'')) \<noteq> None"
  by code_simp+

lemma test_malformed_versions:
  "snd (snd (parseTFEVersionDetailed [])) \<noteq> None"
  "snd (snd (parseTFEVersionDetailed ''foo'')) \<noteq> None"
  "snd (snd (parseTFEVersionDetailed ''123456'')) \<noteq> None"
  by code_simp+

lemma test_algorithm_selection:
  "(case parseTFEVersionDetailed ''1.0.0'' of (versionNum, isSemantic, err) \<Rightarrow>
      err = None \<and> usesNewAlgorithm versionNum isSemantic)"
  "(case parseTFEVersionDetailed ''v202409-1'' of (versionNum, isSemantic, err) \<Rightarrow>
      err = None \<and> usesNewAlgorithm versionNum isSemantic)"
  "(case parseTFEVersionDetailed ''v202502-1'' of (versionNum, isSemantic, err) \<Rightarrow>
      err = None \<and> usesNewAlgorithm versionNum isSemantic)"
  "(case parseTFEVersionDetailed ''v202408-1'' of (versionNum, isSemantic, err) \<Rightarrow>
      err = None \<and> \<not> usesNewAlgorithm versionNum isSemantic)"
  "(case parseTFEVersionDetailed ''v202012-5'' of (versionNum, isSemantic, err) \<Rightarrow>
      err = None \<and> \<not> usesNewAlgorithm versionNum isSemantic)"
  by code_simp+

lemma test_parseTFEVersion:
  "parseTFEVersion ''v202502-1'' = (2025021, None)"
  "snd (parseTFEVersion ''202502-1'') \<noteq> None"
  "snd (parseTFEVersion []) \<noteq> None"
  "parseTFEVersion ''1.0.0'' = (301000000, None)"
  by code_simp+

lemma newline_in_suffix_rejected:
  "parseTFEVersionDetailed (''1.0.0-a'' @ [CHR 0x0A]) = (0, False, Some (Errorf_malformed (''1.0.0-a'' @ [CHR 0x0A])))"
  by code_simp

section \<open>Claims on the algorithm selector and the lifecycle guard\<close>

text \<open>
  Claim C2. The selection rule \<open>isSemantic \<or> versionNum \<ge> 2024091\<close> is true for every
  semantic classification whatever the encoded value, true for a legacy classification
  exactly when the encoded value is at least the threshold 2024091, hence false strictly
  below it: 2024081 gives false, 2024091 gives true.
\<close>

theorem usesNewAlgorithm_gate:
  "usesNewAlgorithm versionNum True
   \<and> usesNewAlgorithm versionNum False = (legacyVersionThreshold \<le> versionNum)
   \<and> \<not> usesNewAlgorithm 2024081 False
   \<and> usesNewAlgorithm 2024091 False"
  by (simp add: usesNewAlgorithm_def legacyVersionThreshold_def)

theorem usesNewAlgorithm_gate_witness:
  "usesNewAlgorithm (- 9223372036555551616) True
   \<and> usesNewAlgorithm 2025021 False \<and> \<not> usesNewAlgorithm 2020125 False"
  using usesNewAlgorithm_gate [of "- 9223372036555551616"] usesNewAlgorithm_gate [of 2025021]
    usesNewAlgorithm_gate [of 2020125]
  by (simp add: legacyVersionThreshold_def)

text \<open>
  Claim C3. \<open>needToAddFinalizer\<close> is true exactly when the deletion marker is absent and
  the finalizer token is not among the object's finalizers; in the three other
  combinations of marker and membership it is false. In particular, without a deletion
  timestamp the answer is whether the token is missing, and with a deletion timestamp
  other than the zero instant the answer is no.
\<close>

theorem needToAddFinalizer_iff:
  "needToAddFinalizer o' finalizer = (\<not> marker_present o' \<and> \<not> token_present o' finalizer)
   \<and> (DeletionTimestamp o' = None \<longrightarrow>
         needToAddFinalizer o' finalizer = (finalizer \<notin> set (Finalizers o')))
   \<and> (\<forall>t. DeletionTimestamp o' = Some t \<and> t \<noteq> Time 0 0 \<longrightarrow> \<not> needToAddFinalizer o' finalizer)"
proof -
  have "needToAddFinalizer o' finalizer = (\<not> marker_present o' \<and> \<not> token_present o' finalizer)"
    by (simp add: needToAddFinalizer_def IsZero_marker ContainsFinalizer_token)
  then show ?thesis
    by (auto simp: marker_present_def token_present_def)
qed

theorem needToAddFinalizer_iff_witness:
  "needToAddFinalizer \<lparr>DeletionTimestamp = None, Finalizers = []\<rparr> ''test.app.terraform.io/finalizer''
   \<and> \<not> needToAddFinalizer \<lparr>DeletionTimestamp = None, Finalizers = [''test.app.terraform.io/finalizer'']\<rparr>
         ''test.app.terraform.io/finalizer''
   \<and> \<not> needToAddFinalizer \<lparr>DeletionTimestamp = Some (Time 63897000000 0), Finalizers = []\<rparr>
         ''test.app.terraform.io/finalizer''
   \<and> \<not> needToAddFinalizer \<lparr>DeletionTimestamp = Some (Time 63897000000 0),
           Finalizers = [''test.app.terraform.io/finalizer'']\<rparr> ''test.app.terraform.io/finalizer''"
  using needToAddFinalizer_iff [of "\<lparr>DeletionTimestamp = None, Finalizers = []\<rparr>" "''test.app.terraform.io/finalizer''"]
    needToAddFinalizer_iff [of "\<lparr>DeletionTimestamp = None, Finalizers = [''test.app.terraform.io/finalizer'']\<rparr>" "''test.app.terraform.io/finalizer''"]
    needToAddFinalizer_iff [of "\<lparr>DeletionTimestamp = Some (Time 63897000000 0), Finalizers = []\<rparr>" "''test.app.terraform.io/finalizer''"]
    needToAddFinalizer_iff [of "\<lparr>DeletionTimestamp = Some (Time 63897000000 0), Finalizers = [''test.app.terraform.io/finalizer'']\<rparr>" "''test.app.terraform.io/finalizer''"]
  by (simp add: marker_present_def token_present_def)

text \<open>
  Claim C4. \<open>isDeletionCandidate\<close> is true exactly when the deletion marker is present and
  the finalizer token is among the object's finalizers. It is never true together with
  \<open>needToAddFinalizer\<close>, and in the two states without action (marker absent and token
  present, marker present and token absent) both predicates are false.
\<close>

theorem isDeletionCandidate_iff:
  "isDeletionCandidate o' finalizer = (marker_present o' \<and> token_present o' finalizer)
   \<and> \<not> (isDeletionCandidate o' finalizer \<and> needToAddFinalizer o' finalizer)
   \<and> (\<not> marker_present o' \<and> token_present o' finalizer \<longrightarrow>
         \<not> isDeletionCandidate o' finalizer \<and> \<not> needToAddFinalizer o' finalizer)
   \<and> (marker_present o' \<and> \<not> token_present o' finalizer \<longrightarrow>
         \<not> isDeletionCandidate o' finalizer \<and> \<not> needToAddFinalizer o' finalizer)"
  by (auto simp: isDeletionCandidate_def needToAddFinalizer_def IsZero_marker ContainsFinalizer_token)

theorem isDeletionCandidate_iff_witness:
  "(\<not> marker_present \<lparr>DeletionTimestamp = None, Finalizers = [''f'']\<rparr>
      \<and> token_present \<lparr>DeletionTimestamp = None, Finalizers = [''f'']\<rparr> ''f''
      \<and> \<not> isDeletionCandidate \<lparr>DeletionTimestamp = None, Finalizers = [''f'']\<rparr> ''f''
      \<and> \<not> needToAddFinalizer \<lparr>DeletionTimestamp = None, Finalizers = [''f'']\<rparr> ''f'')
   \<and> (marker_present \<lparr>DeletionTimestamp = Some (Time 63897000000 0), Finalizers = []\<rparr>
      \<and> \<not> token_present \<lparr>DeletionTimestamp = Some (Time 63897000000 0), Finalizers = []\<rparr> ''f''
      \<and> \<not> isDeletionCandidate \<lparr>DeletionTimestamp = Some (Time 63897000000 0), Finalizers = []\<rparr> ''f''
      \<and> \<not> needToAddFinalizer \<lparr>DeletionTimestamp = Some (Time 63897000000 0), Finalizers = []\<rparr> ''f'')
   \<and> isDeletionCandidate \<lparr>DeletionTimestamp = Some (Time 63897000000 0), Finalizers = [''f'']\<rparr> ''f''"
proof -
  have a: "\<not> marker_present \<lparr>DeletionTimestamp = None, Finalizers = [''f'']\<rparr>"
    "token_present \<lparr>DeletionTimestamp = None, Finalizers = [''f'']\<rparr> ''f''"
    by (simp_all add: marker_present_def token_present_def)
  have b: "marker_present \<lparr>DeletionTimestamp = Some (Time 63897000000 0), Finalizers = []\<rparr>"
    "\<not> token_present \<lparr>DeletionTimestamp = Some (Time 63897000000 0), Finalizers = []\<rparr> ''f''"
    by (simp_all add: marker_present_def token_present_def)
  have c: "marker_present \<lparr>DeletionTimestamp = Some (Time 63897000000 0), Finalizers = [''f'']\<rparr>"
    "token_present \<lparr>DeletionTimestamp = Some (Time 63897000000 0), Finalizers = [''f'']\<rparr> ''f''"
    by (simp_all add: marker_present_def token_present_def)
  show ?thesis
    using a b c
      isDeletionCandidate_iff [of "\<lparr>DeletionTimestamp = None, Finalizers = [''f'']\<rparr>" "''f''"]
      isDeletionCandidate_iff [of "\<lparr>DeletionTimestamp = Some (Time 63897000000 0), Finalizers = []\<rparr>" "''f''"]
      isDeletionCandidate_iff [of "\<lparr>DeletionTimestamp = Some (Time 63897000000 0), Finalizers = [''f'']\<rparr>" "''f''"]
    by blast
qed

section \<open>Claims on the classifier\<close>

lemma parse_flag_legacy:
  assumes "parseTFEVersionDetailed v = (n, False, None)"
  shows "\<exists>ym bn. legacy_form v ym bn \<and> n = decimal (ym @ bn)"
proof (cases v rule: parse_cases)
  case (legacy ym bn)
  with assms show ?thesis by auto
next
  case (semantic a b c t)
  from assms show ?thesis
    unfolding parse_semantic [OF semantic(1)] by (simp split: if_splits)
next
  case malformed
  with assms show ?thesis by simp
qed

text \<open>
  Claim C6. An input is accepted as a legacy version exactly when it is \<^verbatim>\<open>v\<close>, six
  year-month digits, \<^verbatim>\<open>-\<close> and the revision digit, and the value returned with
  \<open>isSemantic = False\<close> is the decimal integer written by the year-month digits followed
  by the revision digits. In particular \<^verbatim>\<open>v202409-1\<close> gives 2024091, not semantic.
\<close>

theorem legacy_encoding:
  "(parseTFEVersionDetailed version = (versionNum, False, None))
     = (\<exists>ym bn. legacy_form version ym bn \<and> versionNum = decimal (ym @ bn))
   \<and> parseTFEVersionDetailed ''v202409-1'' = (2024091, False, None)"
proof -
  have "parseTFEVersionDetailed ''v202409-1'' = (2024091, False, None)" by code_simp
  moreover have "(parseTFEVersionDetailed version = (versionNum, False, None))
     = (\<exists>ym bn. legacy_form version ym bn \<and> versionNum = decimal (ym @ bn))"
    using parse_flag_legacy [of version versionNum] parse_legacy [of version] by blast
  ultimately show ?thesis by simp
qed

theorem legacy_encoding_witness:
  "\<exists>ym bn. legacy_form ''v202502-1'' ym bn \<and> 2025021 = decimal (ym @ bn)"
proof -
  have "parseTFEVersionDetailed ''v202502-1'' = (2025021, False, None)" by code_simp
  with legacy_encoding [of "''v202502-1''" 2025021] show ?thesis by simp
qed

lemma legacy_form_spec_single:
  "legacy_form version ym bn = (legacy_form_spec version ym bn \<and> length bn = 1)"
  by (auto simp: legacy_form_def legacy_form_spec_def)

lemma legacy_grammar_in_spec:
  "legacy_grammar version = (\<exists>ym bn. legacy_form_spec version ym bn \<and> length bn = 1)"
  unfolding legacy_grammar_def legacy_form_spec_single ..

lemma semantic_form_in_spec:
  "semantic_form version a b c t
     = (semantic_form_spec version a b c t \<and> list_all (\<lambda>x. x \<noteq> CHR 0x0A) t)"
proof -
  have "suffix_ok t = ((t = [] \<or> hd t = CHR ''-'' \<or> hd t = CHR ''+'') \<and> list_all (\<lambda>x. x \<noteq> CHR 0x0A) t)"
    by (cases t) (auto simp: suffix_ok_def)
  then show ?thesis
    unfolding semantic_form_def semantic_form_spec_def by blast
qed

lemma semantic_grammar_in_spec:
  "semantic_grammar version
     = (\<exists>a b c t. semantic_form_spec version a b c t \<and> list_all (\<lambda>x. x \<noteq> CHR 0x0A) t)"
  unfolding semantic_grammar_def semantic_form_in_spec ..

lemma legacy_form_spec_groups:
  assumes "legacy_form_spec v ym bn"
  shows "ym = take 6 (drop 1 v)" "bn = drop 8 v"
  using assms by (simp_all add: legacy_form_spec_def)

lemma semantic_form_spec_groups:
  assumes "semantic_form_spec v a b c t"
  shows "a = takeWhile is_digit v"
    and "b = takeWhile is_digit (tl (dropWhile is_digit v))"
    and "c = takeWhile is_digit (tl (dropWhile is_digit (tl (dropWhile is_digit v))))"
proof -
  from assms have v: "v = a @ CHR ''.'' # b @ CHR ''.'' # c @ t"
    and a: "list_all is_digit a" and b: "list_all is_digit b" and c: "list_all is_digit c"
    and t: "t = [] \<or> hd t = CHR ''-'' \<or> hd t = CHR ''+''"
    by (simp_all add: semantic_form_spec_def)
  have nd: "\<not> is_digit CHR ''.''" "\<not> is_digit CHR ''-''" "\<not> is_digit CHR ''+''"
    by (simp_all add: is_digit_def)
  have tn: "t = [] \<or> \<not> is_digit (hd t)" using t nd by auto
  have 1: "takeWhile is_digit v = a" "dropWhile is_digit v = CHR ''.'' # b @ CHR ''.'' # c @ t"
    unfolding v using digit_run [OF a, of "CHR ''.'' # b @ CHR ''.'' # c @ t"] nd by simp_all
  have 2: "takeWhile is_digit (b @ CHR ''.'' # c @ t) = b"
    "dropWhile is_digit (b @ CHR ''.'' # c @ t) = CHR ''.'' # c @ t"
    using digit_run [OF b, of "CHR ''.'' # c @ t"] nd by simp_all
  have 3: "takeWhile is_digit (c @ t) = c"
    using digit_run [OF c, of t] tn by simp
  show "a = takeWhile is_digit v" by (simp add: 1)
  show "b = takeWhile is_digit (tl (dropWhile is_digit v))" by (simp add: 1 2)
  show "c = takeWhile is_digit (tl (dropWhile is_digit (tl (dropWhile is_digit v))))"
    by (simp add: 1 2 3)
qed

text \<open>
  Claim C7, as stated: the classifier returns an error exactly when the input matches
  neither the legacy nor the semantic grammar, or a numeric field of a matching input does
  not parse as an integer. With the grammars of the interface description (a revision
  block of one or more digits, an unrestricted tail) this fails: \<^verbatim>\<open>v202409-10\<close> matches
  the legacy grammar, and \<^verbatim>\<open>1.0.0-a\<close> followed by a newline matches the semantic grammar;
  every numeric field of both parses, and the classifier returns an error for both.
\<close>

theorem spec_grammar_match_rejected:
  "legacy_form_spec ''v202409-10'' ''202409'' ''10''
   \<and> legacy_grammar_spec ''v202409-10''
   \<and> Atoi (''202409'' @ ''10'') = Inr 20240910
   \<and> \<not> numeric_field_fails_spec ''v202409-10''
   \<and> parseTFEVersionDetailed ''v202409-10'' = (0, False, Some (Errorf_malformed ''v202409-10''))
   \<and> semantic_form_spec (''1.0.0-a'' @ [CHR 0x0A]) ''1'' ''0'' ''0'' (''-a'' @ [CHR 0x0A])
   \<and> semantic_grammar_spec (''1.0.0-a'' @ [CHR 0x0A])
   \<and> \<not> numeric_field_fails_spec (''1.0.0-a'' @ [CHR 0x0A])
   \<and> parseTFEVersionDetailed (''1.0.0-a'' @ [CHR 0x0A])
       = (0, False, Some (Errorf_malformed (''1.0.0-a'' @ [CHR 0x0A])))"
proof -
  let ?l = "''v202409-10''"
  let ?s = "''1.0.0-a'' @ [CHR 0x0A]"
  have lf: "legacy_form_spec ?l ''202409'' ''10''"
    by (simp add: legacy_form_spec_def is_digit_def)
  then have lg: "legacy_grammar_spec ?l" unfolding legacy_grammar_spec_def by blast
  have la: "Atoi (''202409'' @ ''10'') = Inr 20240910" by code_simp
  have lt: "takeWhile is_digit ?l = []" by code_simp
  have ln: "\<not> numeric_field_fails_spec ?l"
  proof
    assume "numeric_field_fails_spec ?l"
    then consider ym bn where "legacy_form_spec ?l ym bn" "isl (Atoi (ym @ bn))"
      | a b c t where "semantic_form_spec ?l a b c t"
      unfolding numeric_field_fails_spec_def by blast
    then show False
    proof cases
      case 1
      from legacy_form_spec_groups [OF 1(1)] have "ym = ''202409''" "bn = ''10''" by simp_all
      with 1(2) la show False by simp
    next
      case 2
      from semantic_form_spec_groups(1) [OF 2] lt have "a = []" by simp
      with 2 show False by (simp add: semantic_form_spec_def)
    qed
  qed
  have lp: "parseTFEVersionDetailed ?l = (0, False, Some (Errorf_malformed ?l))" by code_simp
  have sf: "semantic_form_spec ?s ''1'' ''0'' ''0'' (''-a'' @ [CHR 0x0A])"
    by (simp add: semantic_form_spec_def is_digit_def)
  then have sg: "semantic_grammar_spec ?s" unfolding semantic_grammar_spec_def by blast
  have st: "takeWhile is_digit ?s = ''1''"
    "takeWhile is_digit (tl (dropWhile is_digit ?s)) = ''0''"
    "takeWhile is_digit (tl (dropWhile is_digit (tl (dropWhile is_digit ?s)))) = ''0''"
    by code_simp+
  have sa: "Atoi ''1'' = Inr 1" "Atoi ''0'' = Inr 0" by code_simp+
  have sn: "\<not> numeric_field_fails_spec ?s"
  proof
    assume "numeric_field_fails_spec ?s"
    then consider ym bn where "legacy_form_spec ?s ym bn"
      | a b c t where "semantic_form_spec ?s a b c t" "isl (Atoi a) \<or> isl (Atoi b) \<or> isl (Atoi c)"
      unfolding numeric_field_fails_spec_def by blast
    then show False
    proof cases
      case 1
      then show False by (simp add: legacy_form_spec_def)
    next
      case 2
      from semantic_form_spec_groups [OF 2(1)] st have "a = ''1''" "b = ''0''" "c = ''0''"
        by simp_all
      with 2(2) sa show False by simp
    qed
  qed
  have sp: "parseTFEVersionDetailed ?s = (0, False, Some (Errorf_malformed ?s))" by code_simp
  from lf lg la ln lp sf sg sn sp show ?thesis by (intro conjI)
qed

text \<open>
  Claim C7, amended: the classifier returns an error exactly when the input matches
  neither the legacy grammar with exactly one revision digit nor the semantic grammar with
  a tail that holds no newline, or a numeric field of a matching input does not parse as
  an integer. The error names the rejected input, and it comes with the zero value and
  \<open>False\<close>, never with an encoding: a result is a complete pair or an error. The empty
  string, \<^verbatim>\<open>foo\<close>, \<^verbatim>\<open>1.0\<close> and \<^verbatim>\<open>v20250-1\<close> are rejected as malformed.
\<close>

theorem classification_all_or_nothing:
  "((\<exists>e. snd (snd (parseTFEVersionDetailed version)) = Some e)
      = ((\<not> legacy_grammar version \<and> \<not> semantic_grammar version) \<or> numeric_field_fails version))
   \<and> (\<forall>e. snd (snd (parseTFEVersionDetailed version)) = Some e \<longrightarrow>
         parseTFEVersionDetailed version = (0, False, Some e) \<and> error_version e = version)
   \<and> parseTFEVersionDetailed [] = (0, False, Some (Errorf_malformed []))
   \<and> parseTFEVersionDetailed ''foo'' = (0, False, Some (Errorf_malformed ''foo''))
   \<and> parseTFEVersionDetailed ''1.0'' = (0, False, Some (Errorf_malformed ''1.0''))
   \<and> parseTFEVersionDetailed ''v20250-1'' = (0, False, Some (Errorf_malformed ''v20250-1''))
   \<and> legacy_grammar version = (\<exists>ym bn. legacy_form_spec version ym bn \<and> length bn = 1)
   \<and> semantic_grammar version
       = (\<exists>a b c t. semantic_form_spec version a b c t \<and> list_all (\<lambda>x. x \<noteq> CHR 0x0A) t)"
proof -
  have 1: "parseTFEVersionDetailed [] = (0, False, Some (Errorf_malformed []))" by code_simp
  have 2: "parseTFEVersionDetailed ''foo'' = (0, False, Some (Errorf_malformed ''foo''))" by code_simp
  have 3: "parseTFEVersionDetailed ''1.0'' = (0, False, Some (Errorf_malformed ''1.0''))" by code_simp
  have 4: "parseTFEVersionDetailed ''v20250-1'' = (0, False, Some (Errorf_malformed ''v20250-1''))"
    by code_simp
  have 5: "(\<exists>e. snd (snd (parseTFEVersionDetailed version)) = Some e)
      = ((\<not> legacy_grammar version \<and> \<not> semantic_grammar version) \<or> numeric_field_fails version)"
    by (rule parse_error_iff)
  have 6: "\<forall>e. snd (snd (parseTFEVersionDetailed version)) = Some e \<longrightarrow>
         parseTFEVersionDetailed version = (0, False, Some e) \<and> error_version e = version"
    using parse_error_shape [of version] by blast
  show ?thesis
    by (intro conjI 5 6 1 2 3 4 legacy_grammar_in_spec semantic_grammar_in_spec)
qed

theorem classification_all_or_nothing_witness:
  "snd (snd (parseTFEVersionDetailed ''99999999999999999999.0.0''))
     = Some (Errorf_major ''99999999999999999999.0.0'' (NumError ''Atoi'' ''99999999999999999999'' ErrRange))
   \<and> parseTFEVersionDetailed ''99999999999999999999.0.0''
     = (0, False, Some (Errorf_major ''99999999999999999999.0.0'' (NumError ''Atoi'' ''99999999999999999999'' ErrRange)))
   \<and> error_version (Errorf_major ''99999999999999999999.0.0'' (NumError ''Atoi'' ''99999999999999999999'' ErrRange))
     = ''99999999999999999999.0.0''
   \<and> ((\<not> legacy_grammar ''99999999999999999999.0.0'' \<and> \<not> semantic_grammar ''99999999999999999999.0.0'')
       \<or> numeric_field_fails ''99999999999999999999.0.0'')"
proof -
  have h: "snd (snd (parseTFEVersionDetailed ''99999999999999999999.0.0''))
     = Some (Errorf_major ''99999999999999999999.0.0'' (NumError ''Atoi'' ''99999999999999999999'' ErrRange))"
    by code_simp
  note t = classification_all_or_nothing [of "''99999999999999999999.0.0''"]
  from t have a: "(\<exists>e. snd (snd (parseTFEVersionDetailed ''99999999999999999999.0.0'')) = Some e)
      = ((\<not> legacy_grammar ''99999999999999999999.0.0'' \<and> \<not> semantic_grammar ''99999999999999999999.0.0'')
         \<or> numeric_field_fails ''99999999999999999999.0.0'')" by (rule conjunct1)
  from t have b: "\<forall>e. snd (snd (parseTFEVersionDetailed ''99999999999999999999.0.0'')) = Some e \<longrightarrow>
         parseTFEVersionDetailed ''99999999999999999999.0.0'' = (0, False, Some e)
         \<and> error_version e = ''99999999999999999999.0.0''"
    by (rule conjunct2 [THEN conjunct1])
  from a h have c: "(\<not> legacy_grammar ''99999999999999999999.0.0'' \<and> \<not> semantic_grammar ''99999999999999999999.0.0'')
         \<or> numeric_field_fails ''99999999999999999999.0.0''" by blast
  from b h have d: "parseTFEVersionDetailed ''99999999999999999999.0.0''
     = (0, False, Some (Errorf_major ''99999999999999999999.0.0'' (NumError ''Atoi'' ''99999999999999999999'' ErrRange)))"
    by blast
  have e: "error_version (Errorf_major ''99999999999999999999.0.0'' (NumError ''Atoi'' ''99999999999999999999'' ErrRange))
     = ''99999999999999999999.0.0''" by simp
  from h d e c show ?thesis by (intro conjI)
qed

text \<open>
  Claim C10. No input matches both patterns: a legacy match begins with the letter
  \<^verbatim>\<open>v\<close>, a semantic match with a digit. Hence the classifier that tries the semantic
  pattern first returns, on every input, what the legacy-first classifier returns. The
  same holds of the stricter revision.
\<close>

theorem semantic_first_equivalent:
  "(legacyRegexp_FindStringSubmatch version = [] \<or> semanticRegexp_FindStringSubmatch version = [])
   \<and> (legacyRegexp_FindStringSubmatch version \<noteq> [] \<longrightarrow> hd version = CHR ''v'')
   \<and> (semanticRegexp_FindStringSubmatch version \<noteq> [] \<longrightarrow> is_digit (hd version))
   \<and> parseTFEVersionDetailed_semantic_first version = parseTFEVersionDetailed version
   \<and> (legacyRe_FindStringSubmatch version = [] \<or> semanticRe_FindStringSubmatch version = [])
   \<and> parseTFEVersionDetailed_strict_semantic_first version = parseTFEVersionDetailed_strict version"
proof -
  have d: "legacyRegexp_FindStringSubmatch version = [] \<or> semanticRegexp_FindStringSubmatch version = []"
    by (rule patterns_disjoint)
  have l: "legacyRegexp_FindStringSubmatch version \<noteq> [] \<longrightarrow> hd version = CHR ''v''"
    by (simp add: legacyRegexp_FindStringSubmatch_def)
  have s: "semanticRegexp_FindStringSubmatch version \<noteq> [] \<longrightarrow> is_digit (hd version)"
  proof
    assume "semanticRegexp_FindStringSubmatch version \<noteq> []"
    from semantic_match_form [OF this] obtain a b c t where "semantic_form version a b c t" by blast
    then have "version = a @ CHR ''.'' # b @ CHR ''.'' # c @ t" "a \<noteq> []" "list_all is_digit a"
      by (simp_all add: semantic_form_def)
    then show "is_digit (hd version)" by (cases a) simp_all
  qed
  have e: "parseTFEVersionDetailed_semantic_first version = parseTFEVersionDetailed version"
  proof (cases "legacyRegexp_FindStringSubmatch version = []")
    case True
    then show ?thesis
      using semantic_match_length [of version]
      by (auto simp: parseTFEVersionDetailed_semantic_first_def parseTFEVersionDetailed_def)
  next
    case False
    with d have "semanticRegexp_FindStringSubmatch version = []" by simp
    then show ?thesis
      by (simp add: parseTFEVersionDetailed_semantic_first_def parseTFEVersionDetailed_def Let_def)
  qed
  have d': "legacyRe_FindStringSubmatch version = [] \<or> semanticRe_FindStringSubmatch version = []"
    by (rule strict_patterns_disjoint)
  have e': "parseTFEVersionDetailed_strict_semantic_first version = parseTFEVersionDetailed_strict version"
  proof (cases "legacyRe_FindStringSubmatch version = []")
    case True
    then show ?thesis
      by (simp add: parseTFEVersionDetailed_strict_semantic_first_def
            parseTFEVersionDetailed_strict_def Let_def)
  next
    case False
    with d' have "semanticRe_FindStringSubmatch version = []" by simp
    then show ?thesis
      by (simp add: parseTFEVersionDetailed_strict_semantic_first_def
            parseTFEVersionDetailed_strict_def Let_def)
  qed
  from d l s e d' e' show ?thesis by simp
qed

theorem semantic_first_equivalent_witness:
  "legacyRegexp_FindStringSubmatch ''v202409-1'' \<noteq> [] \<and> hd ''v202409-1'' = CHR ''v''
   \<and> semanticRegexp_FindStringSubmatch ''1.2.3-alpha+build'' \<noteq> [] \<and> is_digit (hd ''1.2.3-alpha+build'')
   \<and> parseTFEVersionDetailed_semantic_first ''v202409-1'' = (2024091, False, None)
   \<and> parseTFEVersionDetailed_semantic_first ''1.2.3-alpha+build'' = (301002003, True, None)
   \<and> parseTFEVersionDetailed_strict_semantic_first ''v202409-10'' = (20240910, False, None)"
proof -
  have 1: "legacyRegexp_FindStringSubmatch ''v202409-1'' \<noteq> []" by code_simp
  have 2: "semanticRegexp_FindStringSubmatch ''1.2.3-alpha+build'' \<noteq> []" by code_simp
  have 3: "parseTFEVersionDetailed ''v202409-1'' = (2024091, False, None)" by code_simp
  have 4: "parseTFEVersionDetailed ''1.2.3-alpha+build'' = (301002003, True, None)" by code_simp
  have 5: "parseTFEVersionDetailed_strict ''v202409-10'' = (20240910, False, None)" by code_simp
  from 1 2 3 4 5 semantic_first_equivalent [of "''v202409-1''"]
    semantic_first_equivalent [of "''1.2.3-alpha+build''"]
    semantic_first_equivalent [of "''v202409-10''"]
  show ?thesis by simp
qed

lemma legacy_form_spec_long_rejected:
  assumes "legacy_form_spec version ym bn" "1 < length bn"
  shows "parseTFEVersionDetailed version = (0, False, Some (Errorf_malformed version))"
proof -
  from assms have v: "version = CHR ''v'' # ym @ CHR ''-'' # bn" and l: "length ym = 6"
    by (simp_all add: legacy_form_spec_def)
  from v l assms(2) have "length version \<noteq> 9" by simp
  then have 1: "legacyRegexp_FindStringSubmatch version = []"
    by (simp add: legacyRegexp_FindStringSubmatch_def)
  have "\<not> is_digit CHR ''v''" by (simp add: is_digit_def)
  with v have "takeWhile is_digit version = []" by simp
  then have 2: "semanticRegexp_FindStringSubmatch version = []"
    by (simp add: semanticRegexp_FindStringSubmatch_def)
  from 1 2 show ?thesis by (rule parse_malformed)
qed

text \<open>
  Claim C8, as stated: every text made of \<^verbatim>\<open>v\<close>, six digits, \<^verbatim>\<open>-\<close> and one or more
  digits is accepted as a legacy version, \<^verbatim>\<open>v202409-10\<close> among them. The pattern of the
  classifier takes exactly one revision digit: \<^verbatim>\<open>v202409-10\<close> has the stated form and is
  rejected as malformed.
\<close>

theorem legacy_two_digit_revision_rejected:
  "legacy_form_spec ''v202409-10'' ''202409'' ''10''
   \<and> parseTFEVersionDetailed ''v202409-10'' = (0, False, Some (Errorf_malformed ''v202409-10''))"
proof -
  have "legacy_form_spec ''v202409-10'' ''202409'' ''10''"
    by (simp add: legacy_form_spec_def is_digit_def)
  moreover have "parseTFEVersionDetailed ''v202409-10'' = (0, False, Some (Errorf_malformed ''v202409-10''))"
    by code_simp
  ultimately show ?thesis by simp
qed

text \<open>
  Claim C8, amended: every text made of \<^verbatim>\<open>v\<close>, six digits, \<^verbatim>\<open>-\<close> and exactly one digit
  is accepted as a legacy version (\<open>isSemantic = False\<close>); with a revision block of two or
  more digits the text is rejected as malformed.
\<close>

theorem legacy_single_digit_accepted:
  "(legacy_form_spec version ym bn \<and> length bn = 1 \<longrightarrow>
      parseTFEVersionDetailed version = (decimal (ym @ bn), False, None))
   \<and> (legacy_form_spec version ym bn \<and> 1 < length bn \<longrightarrow>
      parseTFEVersionDetailed version = (0, False, Some (Errorf_malformed version)))"
  using parse_legacy [of version ym bn] legacy_form_spec_long_rejected [of version ym bn]
  by (simp add: legacy_form_spec_single)

theorem legacy_single_digit_accepted_witness:
  "legacy_form_spec ''v202012-5'' ''202012'' ''5'' \<and> length ''5'' = 1
   \<and> parseTFEVersionDetailed ''v202012-5'' = (2020125, False, None)
   \<and> legacy_form_spec ''v202012-55'' ''202012'' ''55'' \<and> 1 < length ''55''
   \<and> parseTFEVersionDetailed ''v202012-55'' = (0, False, Some (Errorf_malformed ''v202012-55''))"
proof -
  have 1: "legacy_form_spec ''v202012-5'' ''202012'' ''5''" "length ''5'' = 1"
    by (simp_all add: legacy_form_spec_def is_digit_def)
  have 2: "legacy_form_spec ''v202012-55'' ''202012'' ''55''" "1 < length ''55''"
    by (simp_all add: legacy_form_spec_def is_digit_def)
  have 3: "decimal (''202012'' @ ''5'') = 2020125" by code_simp
  from 1 2 3 legacy_single_digit_accepted [of "''v202012-5''" "''202012''" "''5''"]
    legacy_single_digit_accepted [of "''v202012-55''" "''202012''" "''55''"]
  show ?thesis by simp
qed

subsection \<open>The two ranges, and where the encoding leaves them\<close>

text \<open>
  A legacy encoding has seven digits, so it is below \<open>semanticVersionBase\<close>. A semantic
  encoding is the exact sum \<open>semantic_sum\<close>, at or above the base and ordered as the
  versions are, as long as the sum fits a Go \<^verbatim>\<open>int\<close>.
\<close>

lemma legacy_below_base:
  assumes "parseTFEVersionDetailed version = (versionNum, False, None)"
  shows "0 \<le> versionNum \<and> versionNum < 10000000 \<and> versionNum < semanticVersionBase"
proof -
  from parse_flag_legacy [OF assms] obtain ym bn where f: "legacy_form version ym bn"
    and n: "versionNum = decimal (ym @ bn)" by blast
  from f have d: "list_all is_digit (ym @ bn)" "length (ym @ bn) = 7" by (simp_all add: legacy_form_def)
  from decimal_bounds [OF d(1)] d(2) n show ?thesis by (simp add: semanticVersionBase_def)
qed

lemma semantic_sum_ge_base:
  assumes "semantic_form version a b c t"
  shows "semanticVersionBase \<le> semantic_sum a b c"
proof -
  from assms have d: "list_all is_digit a" "list_all is_digit b" "list_all is_digit c"
    by (simp_all add: semantic_form_def)
  have "0 \<le> decimal a" "0 \<le> decimal b" "0 \<le> decimal c"
    using d decimal_bounds by blast+
  then show ?thesis by (simp add: semantic_sum_def semanticVersionBase_def)
qed

lemma parse_flag_semantic:
  "(parseTFEVersionDetailed v = (n, True, None))
     = (\<exists>a b c t. semantic_form v a b c t
          \<and> decimal a \<le> MaxInt64 \<and> decimal b \<le> MaxInt64 \<and> decimal c \<le> MaxInt64
          \<and> n = wrap64 (semantic_sum a b c))"
proof (cases v rule: parse_cases)
  case (legacy ym bn)
  have "\<not> (\<exists>a b c t. semantic_form v a b c t)"
    using semantic_form_match [of v] legacy_form_match [OF legacy(1)] patterns_disjoint [of v]
    by fastforce
  with legacy(2) show ?thesis by simp
next
  case (semantic a b c t)
  have w: "encode_semantic (decimal a) (decimal b) (decimal c) = wrap64 (semantic_sum a b c)"
    by (simp add: encode_semantic_wrap semantic_sum_def)
  show ?thesis
  proof
    assume "parseTFEVersionDetailed v = (n, True, None)"
    then have "decimal a \<le> MaxInt64 \<and> decimal b \<le> MaxInt64 \<and> decimal c \<le> MaxInt64
        \<and> n = wrap64 (semantic_sum a b c)"
      unfolding parse_semantic [OF semantic(1)] w by (simp split: if_splits)
    with semantic(1) show "\<exists>a b c t. semantic_form v a b c t
          \<and> decimal a \<le> MaxInt64 \<and> decimal b \<le> MaxInt64 \<and> decimal c \<le> MaxInt64
          \<and> n = wrap64 (semantic_sum a b c)" by blast
  next
    assume "\<exists>a b c t. semantic_form v a b c t
          \<and> decimal a \<le> MaxInt64 \<and> decimal b \<le> MaxInt64 \<and> decimal c \<le> MaxInt64
          \<and> n = wrap64 (semantic_sum a b c)"
    then obtain a' b' c' t' where f: "semantic_form v a' b' c' t'"
      and r: "decimal a' \<le> MaxInt64" "decimal b' \<le> MaxInt64" "decimal c' \<le> MaxInt64"
      and n: "n = wrap64 (semantic_sum a' b' c')" by blast
    from semantic_form_unique [OF semantic(1) f] have "a' = a" "b' = b" "c' = c" by simp_all
    with r n show "parseTFEVersionDetailed v = (n, True, None)"
      unfolding parse_semantic [OF semantic(1)] w by simp
  qed
next
  case malformed
  then show ?thesis by (simp add: semantic_grammar_def)
qed

lemma semantic_at_least_base_when_fits:
  assumes "semantic_form version a b c t" "semantic_sum a b c \<le> MaxInt64"
  shows "parseTFEVersionDetailed version = (semantic_sum a b c, True, None)
         \<and> semanticVersionBase \<le> semantic_sum a b c"
  using parse_semantic_ok [OF assms] semantic_sum_ge_base [OF assms(1)] by simp

lemma semantic_sum_mono:
  assumes "list_all is_digit b1" "list_all is_digit c1" "list_all is_digit b2" "list_all is_digit c2"
    and "decimal b1 < 1000" "decimal c1 < 1000" "decimal b2 < 1000" "decimal c2 < 1000"
    and "version_before (decimal a1, decimal b1, decimal c1) (decimal a2, decimal b2, decimal c2)"
  shows "semantic_sum a1 b1 c1 < semantic_sum a2 b2 c2"
proof -
  have n: "0 \<le> decimal b1" "0 \<le> decimal c1" "0 \<le> decimal b2" "0 \<le> decimal c2"
    using assms(1-4) decimal_bounds by blast+
  from assms(9) consider "decimal a1 < decimal a2"
    | "decimal a1 = decimal a2" "decimal b1 < decimal b2"
    | "decimal a1 = decimal a2" "decimal b1 = decimal b2" "decimal c1 < decimal c2"
    by (auto simp: version_before_def)
  then show ?thesis
  proof cases
    case 1
    then have "decimal a1 + 1 \<le> decimal a2" by simp
    then have "(decimal a1 + 1) * 1000000 \<le> decimal a2 * 1000000" by simp
    with n assms(5-8) show ?thesis by (simp add: semantic_sum_def)
  next
    case 2
    with n assms(5-8) show ?thesis by (simp add: semantic_sum_def)
  next
    case 3
    then show ?thesis by (simp add: semantic_sum_def)
  qed
qed

lemma semantic_order_when_fits:
  assumes "semantic_form v1 a1 b1 c1 t1" "semantic_form v2 a2 b2 c2 t2"
    and "decimal b1 < 1000" "decimal c1 < 1000" "decimal b2 < 1000" "decimal c2 < 1000"
    and "version_before (decimal a1, decimal b1, decimal c1) (decimal a2, decimal b2, decimal c2)"
    and "semantic_sum a2 b2 c2 \<le> MaxInt64"
  shows "parseTFEVersionDetailed v1 = (semantic_sum a1 b1 c1, True, None)
         \<and> parseTFEVersionDetailed v2 = (semantic_sum a2 b2 c2, True, None)
         \<and> semantic_sum a1 b1 c1 < semantic_sum a2 b2 c2"
proof -
  from assms(1,2) have d: "list_all is_digit b1" "list_all is_digit c1"
    "list_all is_digit b2" "list_all is_digit c2"
    by (simp_all add: semantic_form_def)
  from semantic_sum_mono [OF d assms(3-7)] have lt: "semantic_sum a1 b1 c1 < semantic_sum a2 b2 c2" .
  with assms(8) have "semantic_sum a1 b1 c1 \<le> MaxInt64" by simp
  from parse_semantic_ok [OF assms(1) this] parse_semantic_ok [OF assms(2,8)] lt
  show ?thesis by simp
qed

text \<open>
  Claim C1 says that every legacy encoding is below 300000000 and every semantic encoding
  at or above it, so that the two never meet. The additions and multiplications of the
  encoding wrap around: the accepted semantic version \<^verbatim>\<open>9223372036854.0.0\<close> is encoded
  below the base, and \<^verbatim>\<open>9223372036556.800.9223372036854775707\<close> is encoded as 2024091,
  the encoding of the legacy version \<^verbatim>\<open>v202409-1\<close>.
\<close>

theorem semantic_encoding_below_base:
  "parseTFEVersionDetailed ''9223372036854.0.0'' = (- 9223372036555551616, True, None)
   \<and> - 9223372036555551616 < semanticVersionBase
   \<and> parseTFEVersionDetailed ''9223372036556.800.9223372036854775707'' = (2024091, True, None)
   \<and> parseTFEVersionDetailed ''v202409-1'' = (2024091, False, None)"
proof -
  have 1: "parseTFEVersionDetailed ''9223372036854.0.0'' = (- 9223372036555551616, True, None)"
    by code_simp
  have 2: "parseTFEVersionDetailed ''9223372036556.800.9223372036854775707'' = (2024091, True, None)"
    by code_simp
  have 3: "parseTFEVersionDetailed ''v202409-1'' = (2024091, False, None)" by code_simp
  from 1 2 3 show ?thesis by (simp add: semanticVersionBase_def)
qed

text \<open>
  Claim C5 says that an accepted semantic version is encoded as exactly
  300000000 + major * 1000000 + minor * 1000 + patch. For \<^verbatim>\<open>9223372036855.1.2\<close> that sum
  is 9223372037155001002, beyond the largest \<^verbatim>\<open>int\<close>, and the classifier returns the
  wrapped value.
\<close>

theorem semantic_encoding_not_exact:
  "semantic_form ''9223372036855.1.2'' ''9223372036855'' ''1'' ''2'' []
   \<and> parseTFEVersionDetailed ''9223372036855.1.2'' = (- 9223372036554550614, True, None)
   \<and> 300000000 + decimal ''9223372036855'' * 1000000 + decimal ''1'' * 1000 + decimal ''2''
       = 9223372037155001002"
proof -
  have 1: "semantic_form ''9223372036855.1.2'' ''9223372036855'' ''1'' ''2'' []"
    by (simp add: semantic_form_def suffix_ok_def is_digit_def)
  have 2: "parseTFEVersionDetailed ''9223372036855.1.2'' = (- 9223372036554550614, True, None)"
    by code_simp
  have 3: "300000000 + decimal ''9223372036855'' * 1000000 + decimal ''1'' * 1000 + decimal ''2''
       = 9223372037155001002"
    by code_simp
  from 1 2 3 show ?thesis by simp
qed

text \<open>
  Claim C9 says that, minor and patch being below 1000, the encoding of semantic versions
  follows the lexicographic order of (major, minor, patch). \<^verbatim>\<open>1.0.0\<close> comes before
  \<^verbatim>\<open>9223372036854.0.0\<close>, both are accepted, and the first encoding is the greater one.
\<close>

theorem semantic_order_broken:
  "semantic_form ''1.0.0'' ''1'' ''0'' ''0'' []
   \<and> semantic_form ''9223372036854.0.0'' ''9223372036854'' ''0'' ''0'' []
   \<and> decimal ''0'' < 1000
   \<and> version_before (decimal ''1'', decimal ''0'', decimal ''0'')
        (decimal ''9223372036854'', decimal ''0'', decimal ''0'')
   \<and> parseTFEVersionDetailed ''1.0.0'' = (301000000, True, None)
   \<and> parseTFEVersionDetailed ''9223372036854.0.0'' = (- 9223372036555551616, True, None)
   \<and> \<not> (fst (parseTFEVersionDetailed ''1.0.0'') < fst (parseTFEVersionDetailed ''9223372036854.0.0''))"
proof -
  have 1: "semantic_form ''1.0.0'' ''1'' ''0'' ''0'' []"
    by (simp add: semantic_form_def suffix_ok_def is_digit_def)
  have 2: "semantic_form ''9223372036854.0.0'' ''9223372036854'' ''0'' ''0'' []"
    by (simp add: semantic_form_def suffix_ok_def is_digit_def)
  have 3: "decimal ''0'' = 0" "decimal ''1'' = 1" "decimal ''9223372036854'' = 9223372036854"
    by code_simp+
  have 4: "parseTFEVersionDetailed ''1.0.0'' = (301000000, True, None)" by code_simp
  have 5: "parseTFEVersionDetailed ''9223372036854.0.0'' = (- 9223372036555551616, True, None)"
    by code_simp
  from 1 2 4 5 show ?thesis by (simp add: 3 version_before_def)
qed

end
